theory Spec2Isabelle
  imports Complex_Main "HOL-Library.Sublist"
begin

section \<open>Python strings and integers\<close>

text \<open>
  A Python \<open>str\<close> is modelled as a \<open>string\<close>: a list of characters, each one a
  code point below 256. Python integers are unbounded and modelled as \<open>int\<close>.
  Exceptions are values: a function that can raise returns \<open>py_error + 'a\<close>.
\<close>

datatype py_error =
    ValueError
  | IndexError
  | OverflowError
  | MemoryError
  | RuntimeError string
  | RetryError
  | KeyboardInterrupt
  | FileDataError

definition code :: "char \<Rightarrow> nat" where
  "code c = of_char c"

text \<open>\<open>str.isspace\<close> on the code points below 256.\<close>

definition is_space :: "char \<Rightarrow> bool" where
  "is_space c = (code c \<in> {9, 10, 11, 12, 13, 28, 29, 30, 31, 32, 133, 160})"

definition is_digit :: "char \<Rightarrow> bool" where
  "is_digit c = (48 \<le> code c \<and> code c \<le> 57)"

definition digit_val :: "char \<Rightarrow> int" where
  "digit_val c = int (code c) - 48"

text \<open>\<open>s.strip(chars)\<close>, with the set of stripped characters as a predicate.\<close>

definition strip_where :: "(char \<Rightarrow> bool) \<Rightarrow> string \<Rightarrow> string" where
  "strip_where p s = rev (dropWhile p (rev (dropWhile p s)))"

definition py_strip :: "string \<Rightarrow> string" where
  "py_strip s = strip_where is_space s"

text \<open>\<open>s.split(sep)\<close> for a one-character separator: empty pieces are kept.\<close>

fun py_split :: "char \<Rightarrow> string \<Rightarrow> string list" where
  "py_split sep [] = [[]]"
| "py_split sep (c # cs) =
     (if c = sep then [] # py_split sep cs
      else (case py_split sep cs of
              [] \<Rightarrow> [[c]]
            | p # ps \<Rightarrow> (c # p) # ps))"

text \<open>\<open>s.split(sep, 1)\<close> where \<open>sep\<close> occurs in \<open>s\<close>: the text before the first
  separator and the text after it.\<close>

definition split_first :: "char \<Rightarrow> string \<Rightarrow> string \<times> string" where
  "split_first sep s = (takeWhile (\<lambda>c. c \<noteq> sep) s, tl (dropWhile (\<lambda>c. c \<noteq> sep) s))"

text \<open>
  \<open>int(s)\<close> in base 10: surrounding whitespace is ignored, one sign is allowed, and the
  digits may be grouped by single underscores. Anything else raises \<open>ValueError\<close>, and
  so does a number of more digits than the interpreter converts: 4300 by default.
\<close>

definition max_str_digits :: int where
  "max_str_digits = 4300"

fun digits_from :: "int \<Rightarrow> string \<Rightarrow> int option" where
  "digits_from acc [] = Some acc"
| "digits_from acc [c] = (if is_digit c then Some (10 * acc + digit_val c) else None)"
| "digits_from acc (c # d # cs) =
     (if is_digit c then digits_from (10 * acc + digit_val c) (d # cs)
      else if c = CHR ''_'' \<and> is_digit d then digits_from (10 * acc + digit_val d) cs
      else None)"

definition unsigned_int :: "string \<Rightarrow> int option" where
  "unsigned_int s =
     (case s of
        [] \<Rightarrow> None
      | c # cs \<Rightarrow>
          if is_digit c \<and> int (length (filter is_digit s)) \<le> max_str_digits
          then digits_from (digit_val c) cs else None)"

text \<open>
  The whitespace \<open>int\<close> skips around the number: the ASCII whitespace of C, and the
  spaces beyond ASCII. The separators \<open>\x1c\<close> to \<open>\x1f\<close>, which \<open>str.strip\<close> removes,
  are not among it.
\<close>

definition is_int_space :: "char \<Rightarrow> bool" where
  "is_int_space c = (code c \<in> {9, 10, 11, 12, 13, 32, 133, 160})"

definition py_int :: "string \<Rightarrow> py_error + int" where
  "py_int s =
     (let t = strip_where is_int_space s;
          r = (case t of
                 [] \<Rightarrow> None
               | c # cs \<Rightarrow>
                   if c = CHR ''-'' then map_option uminus (unsigned_int cs)
                   else if c = CHR ''+'' then unsigned_int cs
                   else unsigned_int t)
      in case r of None \<Rightarrow> Inl ValueError | Some n \<Rightarrow> Inr n)"

section \<open>Page selection\<close>

text \<open>
  The limits of a list. \<open>sys.maxsize\<close> on a 64-bit interpreter; a range of more
  elements has no length and \<open>list.extend\<close> raises \<open>OverflowError\<close>. A list grows as
  far as memory lets it, and then \<open>MemoryError\<close> is raised: \<open>cap\<close> below is the number
  of elements the machine's memory lets \<open>sel\<close> hold. No machine holds more than
  \<open>list_limit\<close>, the longest list the interpreter can address.
\<close>

definition sys_maxsize :: int where
  "sys_maxsize = 2 ^ 63 - 1"

definition list_limit :: int where
  "list_limit = sys_maxsize div 8"

text \<open>\<open>len(range(x, y + 1))\<close>.\<close>

definition range_len :: "int \<Rightarrow> int \<Rightarrow> int" where
  "range_len x y = max 0 (y - x + 1)"

text \<open>\<open>sel.extend(range(x, y + 1))\<close> and \<open>sel.append(x)\<close>.\<close>

definition list_extend_range :: "int \<Rightarrow> int list \<Rightarrow> int \<Rightarrow> int \<Rightarrow> py_error + int list" where
  "list_extend_range cap sel x y =
     (if sys_maxsize < range_len x y then Inl OverflowError
      else if 0 < range_len x y \<and> min cap list_limit < int (length sel) + range_len x y
      then Inl MemoryError
      else Inr (sel @ [x..y]))"

definition list_append :: "int \<Rightarrow> int list \<Rightarrow> int \<Rightarrow> py_error + int list" where
  "list_append cap sel x =
     (if min cap list_limit < int (length sel) + 1 then Inl MemoryError else Inr (sel @ [x]))"

text \<open>
  The body of the loop of \<open>parse_pages\<close>: what one chunk of the specification makes of
  \<open>sel\<close>. \<open>range(a, b + 1)\<close> is \<open>[a..b]\<close>, empty when \<open>b < a\<close>.
\<close>

definition parse_chunk :: "int \<Rightarrow> int list \<Rightarrow> string \<Rightarrow> py_error + int list" where
  "parse_chunk cap sel chunk0 =
     (let chunk = py_strip chunk0 in
      if CHR ''-'' \<in> set chunk then
        (let (a, b) = split_first (CHR ''-'') chunk in
         case py_int a of
           Inl e \<Rightarrow> Inl e
         | Inr x \<Rightarrow> (case py_int b of
                       Inl e \<Rightarrow> Inl e
                     | Inr y \<Rightarrow> list_extend_range cap sel x y))
      else
        (case py_int chunk of
           Inl e \<Rightarrow> Inl e
         | Inr x \<Rightarrow> list_append cap sel x))"

text \<open>The loop over the chunks; the first error ends it.\<close>

fun parse_chunks :: "int \<Rightarrow> int list \<Rightarrow> string list \<Rightarrow> py_error + int list" where
  "parse_chunks cap sel [] = Inr sel"
| "parse_chunks cap sel (chunk # chunks) =
     (case parse_chunk cap sel chunk of
        Inl e \<Rightarrow> Inl e
      | Inr sel1 \<Rightarrow> parse_chunks cap sel1 chunks)"

text \<open>\<open>parse_pages\<close> on a machine whose memory lets \<open>sel\<close> hold \<open>cap\<close> elements.\<close>

definition parse_pages_within :: "int \<Rightarrow> string option \<Rightarrow> int \<Rightarrow> py_error + int list option" where
  "parse_pages_within cap spec total_pages =
     (case spec of
        None \<Rightarrow> Inr None
      | Some s \<Rightarrow>
          if s = [] then Inr None
          else (case parse_chunks cap [] (py_split (CHR '','') s) of
                  Inl e \<Rightarrow> Inl e
                | Inr sel0 \<Rightarrow>
                    (let sel = filter (\<lambda>p. 1 \<le> p \<and> p \<le> total_pages) sel0;
                         res = sort (remdups sel)
                     in if res = [] then Inr None else Inr (Some res))))"

text \<open>\<open>parse_pages\<close> where memory is no limit: only the interpreter's own limits hold.\<close>

definition parse_pages :: "string option \<Rightarrow> int \<Rightarrow> py_error + int list option" where
  "parse_pages spec total_pages = parse_pages_within list_limit spec total_pages"

subsection \<open>What a selection specification denotes\<close>

text \<open>
  The specification's reading of a selection string, to compare \<open>parse_pages\<close> with:
  a number is a non-empty run of at most 4300 decimal digits, a token is a number or two
  numbers joined by a hyphen, with whitespace around it or not, and a token denotes one
  page or an inclusive range of pages.
\<close>

definition is_number :: "string \<Rightarrow> bool" where
  "is_number s = (s \<noteq> [] \<and> list_all is_digit s \<and> int (length s) \<le> max_str_digits)"

definition num_of :: "string \<Rightarrow> int" where
  "num_of s = foldl (\<lambda>a c. 10 * a + digit_val c) 0 s"

definition plain_token :: "string \<Rightarrow> bool" where
  "plain_token t =
     (is_number t \<or>
      (CHR ''-'' \<in> set t \<and> is_number (fst (split_first (CHR ''-'') t))
         \<and> is_number (snd (split_first (CHR ''-'') t))))"

definition plain_pages :: "string \<Rightarrow> int set" where
  "plain_pages t =
     (if is_number t then {num_of t}
      else {num_of (fst (split_first (CHR ''-'') t)) .. num_of (snd (split_first (CHR ''-'') t))})"

text \<open>Whitespace around a token does not count.\<close>

definition valid_token :: "string \<Rightarrow> bool" where
  "valid_token t = plain_token (py_strip t)"

definition token_pages :: "string \<Rightarrow> int set" where
  "token_pages t = plain_pages (py_strip t)"

definition spec_pages :: "string \<Rightarrow> int set" where
  "spec_pages s = (\<Union>t \<in> set (py_split (CHR '','') s). token_pages t)"

text \<open>
  The number of pages a token names, and a list of tokens that fits: all the pages
  named, repeated ones counted again, are no more than memory and the interpreter let a
  list hold.
\<close>

definition token_size :: "string \<Rightarrow> int" where
  "token_size t =
     (if is_number (py_strip t) then 1
      else range_len (num_of (fst (split_first (CHR ''-'') (py_strip t))))
             (num_of (snd (split_first (CHR ''-'') (py_strip t)))))"

definition fits :: "int \<Rightarrow> string list \<Rightarrow> bool" where
  "fits cap ts = (sum_list (map token_size ts) \<le> min cap list_limit)"

text \<open>
  A malformed token: nothing but whitespace, or holding a character that no integer
  literal and no range can contain.
\<close>

definition numeric_char :: "char \<Rightarrow> bool" where
  "numeric_char c = (is_digit c \<or> is_space c \<or> c = CHR ''+'' \<or> c = CHR ''-'' \<or> c = CHR ''_'')"

definition malformed_token :: "string \<Rightarrow> bool" where
  "malformed_token t = (py_strip t = [] \<or> list_ex (\<lambda>c. \<not> numeric_char c) t)"

section \<open>Slug of a course name\<close>

text \<open>\<open>str.lower\<close> on the code points below 256: the ASCII and the Latin-1 capitals.\<close>

definition lower_char :: "char \<Rightarrow> char" where
  "lower_char c =
     (let n = code c in
      if (65 \<le> n \<and> n \<le> 90) \<or> (192 \<le> n \<and> n \<le> 222 \<and> n \<noteq> 215)
      then char_of (n + 32) else c)"

definition py_lower :: "string \<Rightarrow> string" where
  "py_lower s = map lower_char s"

text \<open>The character class \<open>[a-z0-9]\<close>.\<close>

definition is_lower_alnum :: "char \<Rightarrow> bool" where
  "is_lower_alnum c = ((97 \<le> code c \<and> code c \<le> 122) \<or> is_digit c)"

text \<open>
  \<open>re.sub(r'[^a-z0-9]+', '-', s)\<close>: scanning from the left, every maximal run of
  characters outside the class is replaced by one hyphen.
\<close>

function sub_non_alnum :: "string \<Rightarrow> string" where
  "sub_non_alnum [] = []"
| "sub_non_alnum (c # cs) =
     (if is_lower_alnum c then c # sub_non_alnum cs
      else CHR ''-'' # sub_non_alnum (dropWhile (\<lambda>d. \<not> is_lower_alnum d) cs))"
  by pat_completeness auto
termination
  by (relation "measure length") (auto simp: length_dropWhile_le less_Suc_eq_le)

definition is_hyphen :: "char \<Rightarrow> bool" where
  "is_hyphen c = (c = CHR ''-'')"

text \<open>\<open>_slug\<close>, the local function of \<open>annotate_pdf\<close>.\<close>

definition slug :: "string \<Rightarrow> string" where
  "slug s = strip_where is_hyphen (sub_non_alnum (py_lower s))"


section \<open>Header formatting\<close>

abbreviation newline :: char where
  "newline \<equiv> CHR 0x0A"

text \<open>\<open>s.rstrip(chars)\<close>, with the set of stripped characters as a predicate.\<close>

definition rstrip_where :: "(char \<Rightarrow> bool) \<Rightarrow> string \<Rightarrow> string" where
  "rstrip_where p s = rev (dropWhile p (rev s))"

definition headers :: "string list" where
  "headers =
     [''Title:'', ''Explanation:'', ''Equation breakdown:'', ''Intuition:'',
      ''Mental checkpoint:'', ''Connections:'']"

text \<open>
  \<open>re.sub(rf"(?m)^{re.escape(h)}", replacement, body)\<close> for a non-empty literal \<open>h\<close>.
  The scan goes from the left; \<open>bol\<close> tells whether the current position is the start
  of a line (the start of the text, or right after a newline). A match there is replaced
  and the scan goes on behind it; elsewhere one character is copied.
\<close>

function sub_line_start :: "string \<Rightarrow> string \<Rightarrow> bool \<Rightarrow> string \<Rightarrow> string" where
  "sub_line_start h r bol [] = []"
| "sub_line_start h r bol (c # cs) =
     (if h \<noteq> [] \<and> bol \<and> prefix h (c # cs)
      then r @ sub_line_start h r (last h = newline) (drop (length h) (c # cs))
      else c # sub_line_start h r (c = newline) cs)"
  by pat_completeness auto
termination
  by (relation "measure (\<lambda>(h, r, bol, s). length s)") auto

text \<open>The replacement \<open>f"**{label}:**\n"\<close> with \<open>label = h.rstrip(":")\<close>.\<close>

definition bold_header :: "string \<Rightarrow> string" where
  "bold_header h = ''**'' @ rstrip_where (\<lambda>c. c = CHR '':'') h @ '':**'' @ [newline]"

definition format_annotation_headers :: "string \<Rightarrow> string" where
  "format_annotation_headers body =
     foldl (\<lambda>b h. sub_line_start h (bold_header h) True b) body headers"

subsection \<open>Header formatting line by line\<close>

text \<open>
  The specification's reading of one pass: the text is cut into lines at the newlines,
  a line that begins with the header has this beginning replaced by the bold form, every
  other line is left as it is, and the lines are joined again.
\<close>

fun join_lines :: "string list \<Rightarrow> string" where
  "join_lines [] = []"
| "join_lines [l] = l"
| "join_lines (l # m # ls) = l @ newline # join_lines (m # ls)"

definition replace_prefix :: "string \<Rightarrow> string \<Rightarrow> string \<Rightarrow> string" where
  "replace_prefix h r l = (if prefix h l then r @ drop (length h) l else l)"

definition rewrite_line :: "string \<Rightarrow> string \<Rightarrow> string" where
  "rewrite_line h l = replace_prefix h (bold_header h) l"

definition rewrite_pass :: "string \<Rightarrow> string \<Rightarrow> string" where
  "rewrite_pass h b = join_lines (map (rewrite_line h) (py_split newline b))"

definition starts_with_header :: "string \<Rightarrow> bool" where
  "starts_with_header l = list_ex (\<lambda>h. prefix h l) headers"

text \<open>No line of the text begins with a recognized header.\<close>

definition header_free :: "string \<Rightarrow> bool" where
  "header_free b = list_all (\<lambda>l. \<not> starts_with_header l) (py_split newline b)"

text \<open>
  No recognized header at the start of a line is directly followed by a recognized
  header.
\<close>

definition no_header_follows :: "string \<Rightarrow> bool" where
  "no_header_follows b =
     list_all (\<lambda>l. list_all (\<lambda>h. \<not> (prefix h l \<and> starts_with_header (drop (length h) l))) headers)
       (py_split newline b)"

section \<open>Page geometry\<close>

text \<open>
  Coordinates are page units. The code computes them in floating point; the model takes
  them as real numbers, so rounding of the arithmetic is not part of it.
  A \<open>fitz.Rect\<close> is its four coordinates.
\<close>

record rect =
  x0 :: real
  y0 :: real
  x1 :: real
  y1 :: real

definition Rect :: "real \<Rightarrow> real \<Rightarrow> real \<Rightarrow> real \<Rightarrow> rect" where
  "Rect a b c d = \<lparr>x0 = a, y0 = b, x1 = c, y1 = d\<rparr>"

text \<open>
  \<open>Rect.is_empty\<close> and \<open>Rect.is_infinite\<close>: a rectangle with no area, and the one
  rectangle PyMuPDF takes for the whole plane.
\<close>

definition rect_is_empty :: "rect \<Rightarrow> bool" where
  "rect_is_empty r = (x1 r \<le> x0 r \<or> y1 r \<le> y0 r)"

definition rect_is_infinite :: "rect \<Rightarrow> bool" where
  "rect_is_infinite r =
     (x0 r = - 2147483648 \<and> y0 r = - 2147483648 \<and> x1 r = 2147483520 \<and> y1 r = 2147483520)"

text \<open>
  The geometry part of the loop body of \<open>annotate_pdf\<close>, from the width and the height
  of \<open>page.rect\<close>: the size of the new page, the rectangle the source page is shown in,
  and the notes rectangle. Any side other than \<open>"right"\<close> takes the \<open>else\<close> branch.
\<close>

record layout =
  new_w :: real
  new_h :: real
  slide_rect :: rect
  notes_rect :: rect

definition page_layout :: "real \<Rightarrow> real \<Rightarrow> string \<Rightarrow> real \<Rightarrow> layout" where
  "page_layout width height side margin_ratio =
     (let note_w = width * margin_ratio;
          nw = width + note_w;
          nh = height
      in if side = ''right''
         then \<lparr>new_w = nw, new_h = nh,
               slide_rect = Rect 0 0 width height,
               notes_rect = Rect width 0 nw nh\<rparr>
         else \<lparr>new_w = nw, new_h = nh,
               slide_rect = Rect note_w 0 nw height,
               notes_rect = Rect 0 0 note_w nh\<rparr>)"


subsection \<open>Rectangles as regions\<close>



section \<open>Numbers as text, and the renderer's environment\<close>

text \<open>\<open>str(n)\<close> and \<open>f"{n:03d}"\<close> for an integer \<open>n\<close>.\<close>

function show_nat :: "nat \<Rightarrow> string" where
  "show_nat n =
     (if n < 10 then [char_of (48 + n)]
      else show_nat (n div 10) @ [char_of (48 + n mod 10)])"
  by pat_completeness auto
termination
  by (relation "measure id") auto

definition py_str :: "int \<Rightarrow> string" where
  "py_str i = (if i < 0 then CHR ''-'' # show_nat (nat (- i)) else show_nat (nat i))"

definition zero_pad :: "nat \<Rightarrow> string \<Rightarrow> string" where
  "zero_pad k s = replicate (k - length s) (CHR ''0'') @ s"

definition format_03d :: "int \<Rightarrow> string" where
  "format_03d i =
     (if i < 0 then CHR ''-'' # zero_pad 2 (show_nat (nat (- i)))
      else zero_pad 3 (show_nat (nat i)))"

text \<open>\<open>int(x)\<close> for a float \<open>x\<close>: the fraction is cut off, towards zero.\<close>

definition int_of_float :: "real \<Rightarrow> int" where
  "int_of_float x = (if 0 \<le> x then \<lfloor>x\<rfloor> else \<lceil>x\<rceil>)"

text \<open>
  \<open>Rect.width\<close> and \<open>Rect.height\<close> as PyMuPDF documents them: the difference of the
  coordinates, and 0 where that is negative.
\<close>

definition rect_width :: "rect \<Rightarrow> real" where
  "rect_width r = max 0 (x1 r - x0 r)"

definition rect_height :: "rect \<Rightarrow> real" where
  "rect_height r = max 0 (y1 r - y0 r)"

text \<open>
  The environment \<open>render_md_to_pdf\<close> hands to the Node process: a copy of
  \<open>os.environ\<close> with the two sizes set.
\<close>

definition render_env :: "(string \<rightharpoonup> string) \<Rightarrow> rect \<Rightarrow> (string \<rightharpoonup> string)" where
  "render_env os_environ notes =
     (os_environ(''NOTE_WIDTH'' \<mapsto> py_str (int_of_float (rect_width notes))))
       (''NOTE_HEIGHT'' \<mapsto> py_str (int_of_float (rect_height notes)))"

section \<open>The annotation run\<close>

subsection \<open>The world outside the program\<close>

text \<open>
  A path is a \<open>pathlib\<close> path: absolute or not, and its components. Joining with an
  absolute path gives that path.
\<close>

record path =
  absolute :: bool
  parts :: "string list"

definition Path :: "string \<Rightarrow> path" where
  "Path s =
     \<lparr>absolute = (s \<noteq> [] \<and> hd s = CHR ''/''),
      parts = filter (\<lambda>p. p \<noteq> [] \<and> p \<noteq> ''.'') (py_split (CHR ''/'') s)\<rparr>"

definition path_join :: "path \<Rightarrow> string \<Rightarrow> path" where
  "path_join p s =
     (if absolute (Path s) then Path s
      else \<lparr>absolute = absolute p, parts = parts p @ parts (Path s)\<rparr>)"

text \<open>
  What the run does to the outside is recorded in order: pages added to the output,
  requests to the text-generation service, waits between attempts, files written, runs of
  the Node renderer, the lines printed, and the final save. The world also holds the
  files, the number of requests sent so far, and the number of pages of the output
  document \<open>dst\<close>.
\<close>

datatype event =
    NewPage real real
  | ShowSource rect int
  | Request nat string
  | Sleep real
  | WriteText path string
  | RunNode string "string \<rightharpoonup> string" string
  | Stderr string
  | WriteBytes path string
  | ShowNotes rect string
  | PrintOk int
  | Save string
  | PrintSaved string

record world =
  files :: "path \<rightharpoonup> string"
  calls :: nat
  trace :: "event list"
  dst_pages :: nat

definition emit :: "world \<Rightarrow> event list \<Rightarrow> world" where
  "emit w evs = w\<lparr>trace := trace w @ evs\<rparr>"


text \<open>
  The collaborators are parameters. The service answers the \<open>n\<close>-th request of the run:
  it raises an exception, is interrupted by something that is not an \<open>Exception\<close>, or
  returns a response with its \<open>output_text\<close>. \<open>jitter\<close> is the \<open>n\<close>-th draw of
  \<open>random.uniform(0, 1)\<close>. \<open>node\<close> runs the renderer script with an environment and a
  standard input. \<open>opens_as_pdf\<close> tells whether \<open>fitz.open\<close> accepts the bytes as a PDF.
\<close>

datatype response = Fails | Interrupted | Returns "string option"

record proc_result =
  returncode :: int
  stdout :: string
  stderr :: string

record collaborators =
  service :: "nat \<Rightarrow> string \<Rightarrow> response"
  jitter :: "nat \<Rightarrow> real"
  node :: "string \<Rightarrow> (string \<rightharpoonup> string) \<Rightarrow> string \<Rightarrow> proc_result"
  has_node :: bool
  os_environ :: "string \<rightharpoonup> string"
  opens_as_pdf :: "string \<Rightarrow> bool"

subsection \<open>The text generator and its retries\<close>

text \<open>
  \<open>wait_exponential_jitter(initial, max)\<close> of tenacity, with base 2: the wait after
  the attempt with the given number.
\<close>

definition wait_exponential_jitter :: "real \<Rightarrow> real \<Rightarrow> nat \<Rightarrow> real \<Rightarrow> real" where
  "wait_exponential_jitter initial maxi attempt_number j =
     max 0 (min (initial * 2 ^ (attempt_number - 1) + j) maxi)"

text \<open>
  \<open>call_gpt5\<close> under its \<open>@retry\<close> decorator, from a given attempt number on. A
  response ends the loop with the stripped text. An exception is retried after a wait,
  unless this was the fifth attempt: then \<open>RetryError\<close> is raised. What is not an
  \<open>Exception\<close> is not retried.
\<close>

function call_gpt5_from :: "collaborators \<Rightarrow> nat \<Rightarrow> world \<Rightarrow> string \<Rightarrow> world \<times> (py_error + string)" where
  "call_gpt5_from c attempt w user_prompt =
     (let n = calls w;
          w1 = emit (w\<lparr>calls := n + 1\<rparr>) [Request n user_prompt]
      in case service c n user_prompt of
           Returns t \<Rightarrow> (w1, Inr (py_strip (case t of None \<Rightarrow> [] | Some s \<Rightarrow> s)))
         | Interrupted \<Rightarrow> (w1, Inl KeyboardInterrupt)
         | Fails \<Rightarrow>
             if 5 \<le> attempt then (w1, Inl RetryError)
             else call_gpt5_from c (attempt + 1)
                    (emit w1 [Sleep (wait_exponential_jitter 1 20 attempt (jitter c n))])
                    user_prompt)"
  by pat_completeness auto
termination
  by (relation "measure (\<lambda>(c, attempt, w, p). 5 - attempt)") auto

definition call_gpt5 :: "collaborators \<Rightarrow> world \<Rightarrow> string \<Rightarrow> world \<times> (py_error + string)" where
  "call_gpt5 c w user_prompt = call_gpt5_from c 1 w user_prompt"

text \<open>
  What \<open>k\<close> failed attempts leave in the trace, the first of them being request \<open>n\<close> and
  attempt \<open>a\<close>: a request and a wait each.
\<close>

fun failed_attempts :: "collaborators \<Rightarrow> string \<Rightarrow> nat \<Rightarrow> nat \<Rightarrow> nat \<Rightarrow> event list" where
  "failed_attempts c p n a 0 = []"
| "failed_attempts c p n a (Suc k) =
     Request n p # Sleep (wait_exponential_jitter 1 20 a (jitter c n))
       # failed_attempts c p (Suc n) (Suc a) k"

subsection \<open>Text of a page and the prompt\<close>

record page =
  page_width :: real
  page_height :: real
  page_text :: string
  page_blocks :: "string option list"

text \<open>
  \<open>extract_text\<close>: \<open>page_text\<close> is what \<open>get_text("text")\<close> gives, \<open>page_blocks\<close> the
  fifth entry of every block, \<open>None\<close> where it is not a string.
\<close>

definition extract_text :: "page \<Rightarrow> string" where
  "extract_text pg =
     (let t = py_strip (page_text pg) in
      if t = [] then
        py_strip (join_lines (concat (map (\<lambda>b. case b of None \<Rightarrow> [] | Some s \<Rightarrow> [s])
                                          (page_blocks pg))))
      else t)"

text \<open>\<open>str.splitlines\<close> on the code points below 256.\<close>

definition is_linebreak :: "char \<Rightarrow> bool" where
  "is_linebreak c = (code c \<in> {10, 11, 12, 13, 28, 29, 30, 133})"

fun py_splitlines :: "string \<Rightarrow> string list" where
  "py_splitlines [] = []"
| "py_splitlines (c # cs) =
     (if c = CHR 0x0D \<and> cs \<noteq> [] \<and> hd cs = newline then [] # py_splitlines (tl cs)
      else if is_linebreak c then [] # py_splitlines cs
      else (case py_splitlines cs of
              [] \<Rightarrow> [[c]]
            | l # ls \<Rightarrow> (c # l) # ls))"

definition slide_title :: "string \<Rightarrow> int \<Rightarrow> string" where
  "slide_title raw idx =
     (case filter (\<lambda>line. py_strip line \<noteq> []) (py_splitlines raw) of
        [] \<Rightarrow> ''Slide '' @ py_str idx
      | line # _ \<Rightarrow> line)"

definition USER_PROMPT :: "string \<Rightarrow> string \<Rightarrow> string \<Rightarrow> string" where
  "USER_PROMPT course title body =
     ''Course: '' @ course @ [newline, newline]
     @ ''Slide title (if any): '' @ title @ [newline, newline]
     @ ''Raw slide text:'' @ [newline] @ body @ [newline, newline]
     @ ''Write only the annotation content with the exact section headers above, using $...$ or $$...$$ for math.''
     @ [newline]"

subsection \<open>One page\<close>

record config =
  course_name :: string
  node_script :: string
  side :: string
  margin_ratio :: real
  cache_root :: path
  doc_stem :: string
  force :: bool
  output_pdf :: string

definition cache_dir :: "config \<Rightarrow> path" where
  "cache_dir cfg = path_join (cache_root cfg) (slug (course_name cfg) @ ''/'' @ doc_stem cfg)"

definition md_path :: "config \<Rightarrow> int \<Rightarrow> path" where
  "md_path cfg idx = path_join (path_join (cache_dir cfg) (''slide_'' @ format_03d idx)) ''note.md''"

definition pdf_path :: "config \<Rightarrow> int \<Rightarrow> path" where
  "pdf_path cfg idx = path_join (path_join (cache_dir cfg) (''slide_'' @ format_03d idx)) ''note.pdf''"

text \<open>
  \<open>read_text\<close> opens the file in text mode: the line endings \<open>\r\n\<close> and \<open>\r\<close> are read
  as \<open>\n\<close>. \<open>write_text\<close> on a POSIX system stores the text as it is.
\<close>

fun read_text :: "string \<Rightarrow> string" where
  "read_text [] = []"
| "read_text (c # cs) =
     (if c = CHR 0x0D then newline # read_text (if cs \<noteq> [] \<and> hd cs = newline then tl cs else cs)
      else c # read_text cs)"

definition replace_nbsp :: "string \<Rightarrow> string" where
  "replace_nbsp s = map (\<lambda>c. if c = CHR 0xA0 then CHR '' '' else c) s"

definition page_prompt :: "config \<Rightarrow> page \<Rightarrow> int \<Rightarrow> string" where
  "page_prompt cfg pg idx =
     (let raw = extract_text pg;
          title = slide_title raw idx
      in USER_PROMPT (take 120 (course_name cfg)) (take 120 title)
           (if raw \<noteq> [] then raw else ''(no text detected)''))"

text \<open>
  The annotation text of a page: the cached record where there is one and \<open>force\<close> is
  off, and otherwise the answer of the generator, normalised and written to the cache.
\<close>

definition page_note :: "collaborators \<Rightarrow> config \<Rightarrow> world \<Rightarrow> page \<Rightarrow> int \<Rightarrow> world \<times> (py_error + string)" where
  "page_note c cfg w pg idx =
     (case (if force cfg then None else files w (md_path cfg idx)) of
        Some stored \<Rightarrow> (w, Inr (read_text stored))
      | None \<Rightarrow>
          (case call_gpt5 c w (page_prompt cfg pg idx) of
             (w1, Inl e) \<Rightarrow> (w1, Inl e)
           | (w1, Inr out) \<Rightarrow>
               (let note_md = format_annotation_headers (replace_nbsp out)
                in (emit (w1\<lparr>files := (files w1)(md_path cfg idx \<mapsto> note_md)\<rparr>)
                      [WriteText (md_path cfg idx) note_md],
                    Inr note_md))))"

text \<open>\<open>render_md_to_pdf\<close>: a run of Node; a non-zero return code raises.\<close>

definition render_md_to_pdf :: "collaborators \<Rightarrow> world \<Rightarrow> string \<Rightarrow> string \<Rightarrow> rect \<Rightarrow> world \<times> (py_error + string)" where
  "render_md_to_pdf c w markdown script notes =
     (let env = render_env (os_environ c) notes;
          p = node c script env markdown;
          w1 = emit w [RunNode script env markdown]
      in if returncode p \<noteq> 0
         then (emit w1 [Stderr (stderr p)], Inl (RuntimeError ''render-note.js failed''))
         else (w1, Inr (stdout p)))"

text \<open>
  The end of the loop body: render the text, store the fragment, open it and place it.
  \<open>fitz.open\<close> raises \<open>FileDataError\<close> on bytes that are no PDF, and \<open>show_pdf_page\<close>
  raises \<open>ValueError\<close> on a rectangle that is empty or infinite; the fragment is already
  stored by then.
\<close>

definition place_note :: "collaborators \<Rightarrow> config \<Rightarrow> world \<Rightarrow> string \<Rightarrow> rect \<Rightarrow> int \<Rightarrow> world \<times> (py_error + unit)" where
  "place_note c cfg w note_md notes idx =
     (case render_md_to_pdf c w note_md (node_script cfg) notes of
        (w1, Inl e) \<Rightarrow> (w1, Inl e)
      | (w1, Inr pdf_bytes) \<Rightarrow>
          (let w2 = emit (w1\<lparr>files := (files w1)(pdf_path cfg idx \<mapsto> pdf_bytes)\<rparr>)
                      [WriteBytes (pdf_path cfg idx) pdf_bytes]
           in if \<not> opens_as_pdf c pdf_bytes then (w2, Inl FileDataError)
              else if rect_is_empty notes \<or> rect_is_infinite notes then (w2, Inl ValueError)
              else (emit w2 [ShowNotes notes pdf_bytes, PrintOk idx], Inr ())))"

text \<open>
  The start of the loop body: the new page, one more page of \<open>dst\<close>, with the source
  page shown on it. The source is taken to be a PDF whose pages have a rectangle that is
  not empty, as MuPDF gives it to every page it loads: showing the source page in a
  rectangle of the page's own size raises nothing.
\<close>

definition begin_page :: "config \<Rightarrow> world \<Rightarrow> page \<Rightarrow> int \<Rightarrow> world" where
  "begin_page cfg w pg idx =
     (let l = page_layout (page_width pg) (page_height pg) (side cfg) (margin_ratio cfg)
      in emit (w\<lparr>dst_pages := dst_pages w + 1\<rparr>)
           [NewPage (new_w l) (new_h l), ShowSource (slide_rect l) (idx - 1)])"

definition annotate_page :: "collaborators \<Rightarrow> config \<Rightarrow> world \<Rightarrow> page \<Rightarrow> int \<Rightarrow> world \<times> (py_error + unit)" where
  "annotate_page c cfg w pg idx =
     (let l = page_layout (page_width pg) (page_height pg) (side cfg) (margin_ratio cfg)
      in case page_note c cfg (begin_page cfg w pg idx) pg idx of
           (w1, Inl e) \<Rightarrow> (w1, Inl e)
         | (w1, Inr note_md) \<Rightarrow> place_note c cfg w1 note_md (notes_rect l) idx)"

subsection \<open>The run over the pages\<close>

text \<open>
  \<open>src[i]\<close> of a document: an index from the page count on raises \<open>IndexError\<close>, a
  negative one counts from the end. Pages that \<open>parse_pages\<close> selected, and the default
  \<open>range(1, len(src) + 1)\<close>, are always found.
\<close>

definition get_page :: "page list \<Rightarrow> int \<Rightarrow> py_error + page" where
  "get_page src i =
     (if i < int (length src) \<and> src \<noteq> []
      then Inr (src ! nat (i mod int (length src)))
      else Inl IndexError)"

fun run_pages :: "collaborators \<Rightarrow> config \<Rightarrow> page list \<Rightarrow> world \<Rightarrow> int list \<Rightarrow> world \<times> (py_error + unit)" where
  "run_pages c cfg src w [] = (w, Inr ())"
| "run_pages c cfg src w (idx # rest) =
     (case get_page src (idx - 1) of
        Inl e \<Rightarrow> (w, Inl e)
      | Inr pg \<Rightarrow>
          (case annotate_page c cfg w pg idx of
             (w1, Inl e) \<Rightarrow> (w1, Inl e)
           | (w1, Inr u) \<Rightarrow> run_pages c cfg src w1 rest))"

text \<open>
  \<open>annotate_pdf\<close>: \<open>dst\<close> starts with no page, and \<open>dst.save\<close> raises \<open>ValueError\<close>
  on a document with no page.
\<close>

definition annotate_pdf :: "collaborators \<Rightarrow> config \<Rightarrow> page list \<Rightarrow> int list option \<Rightarrow> world \<Rightarrow> world \<times> (py_error + unit)" where
  "annotate_pdf c cfg src pages w =
     (if \<not> has_node c then (w, Inl (RuntimeError ''Node.js not found. Install it first.''))
      else
        (let pages_iter = (case pages of None \<Rightarrow> [1 .. int (length src)] | Some ps \<Rightarrow> ps)
         in case run_pages c cfg src (w\<lparr>dst_pages := 0\<rparr>) pages_iter of
              (w1, Inl e) \<Rightarrow> (w1, Inl e)
            | (w1, Inr u) \<Rightarrow>
                if dst_pages w1 = 0 then (w1, Inl ValueError)
                else (emit w1 [Save (output_pdf cfg), PrintSaved (output_pdf cfg)], Inr ())))"

section \<open>An example run\<close>

text \<open>
  Collaborators, a configuration and a page to run the definitions on: a service that
  fails a given number of times and then answers, a renderer that succeeds with bytes
  that open as a PDF.
\<close>

definition example_node :: "string \<Rightarrow> (string \<rightharpoonup> string) \<Rightarrow> string \<Rightarrow> proc_result" where
  "example_node script env markdown = \<lparr>returncode = 0, stdout = ''%PDF'', stderr = []\<rparr>"

definition example_collaborators :: "nat \<Rightarrow> collaborators" where
  "example_collaborators failures =
     \<lparr>service = (\<lambda>n user_prompt. if n < failures then Fails else Returns (Some ''Explanation: ok'')),
      jitter = (\<lambda>n. 1 / 2),
      node = example_node,
      has_node = True,
      os_environ = Map.empty,
      opens_as_pdf = (\<lambda>bytes. take 4 bytes = ''%PDF'')\<rparr>"

definition example_config :: config where
  "example_config =
     \<lparr>course_name = ''Reinforcement Learning!'',
      node_script = ''render/render-note.js'',
      side = ''right'',
      margin_ratio = 1,
      cache_root = Path ''.annot_cache'',
      doc_stem = ''lecture1'',
      force = False,
      output_pdf = ''out.pdf''\<rparr>"

definition example_page :: page where
  "example_page =
     \<lparr>page_width = 400, page_height = 300, page_text = ''Value iteration'', page_blocks = []\<rparr>"

definition example_world :: "(path \<rightharpoonup> string) \<Rightarrow> world" where
  "example_world fs = \<lparr>files = fs, calls = 0, trace = [], dst_pages = 0\<rparr>"

section \<open>Properties of stripping\<close>

lemma strip_where_id:
  assumes "s \<noteq> []" "\<not> p (hd s)" "\<not> p (last s)"
  shows "strip_where p s = s"
proof -
  from assms have a: "dropWhile p s = s" by (cases s) auto
  from assms have "dropWhile p (rev s) = rev s" by (cases "rev s") (auto simp: last_rev hd_rev)
  with a show ?thesis by (simp add: strip_where_def)
qed

lemma in_dropWhile: "c \<in> set xs \<Longrightarrow> \<not> p c \<Longrightarrow> c \<in> set (dropWhile p xs)"
  by (induction xs) auto

lemma in_strip_where: "c \<in> set s \<Longrightarrow> \<not> p c \<Longrightarrow> c \<in> set (strip_where p s)"
  by (simp add: strip_where_def in_dropWhile)




lemma last_dropWhile: "dropWhile p xs \<noteq> [] \<Longrightarrow> last (dropWhile p xs) = last xs"
  by (induction xs) (auto split: if_splits)

lemma strip_where_ends:
  assumes "strip_where p s \<noteq> []"
  shows "\<not> p (hd (strip_where p s)) \<and> \<not> p (last (strip_where p s))"
proof -
  let ?s' = "dropWhile p s"
  let ?d = "dropWhile p (rev ?s')"
  from assms have d: "?d \<noteq> []" by (simp add: strip_where_def)
  have s': "?s' \<noteq> []"
  proof
    assume "?s' = []"
    then have "?d = []" by (simp only: rev.simps dropWhile.simps)
    with d show False by contradiction
  qed
  have "\<not> p (hd ?d)" using d hd_dropWhile by blast
  then have l: "\<not> p (last (strip_where p s))"
    using d by (simp add: strip_where_def last_rev)
  have "last ?d = last (rev ?s')" using d by (rule last_dropWhile)
  also have "\<dots> = hd ?s'" using s' by (simp add: last_rev)
  finally have "hd (strip_where p s) = hd ?s'"
    using d by (simp add: strip_where_def hd_rev)
  moreover have "\<not> p (hd ?s')" using s' hd_dropWhile by blast
  ultimately show ?thesis using l by simp
qed

lemma strip_where_Nil: "strip_where p [] = []"
  by (simp add: strip_where_def)

lemma strip_where_idem: "strip_where p (strip_where p s) = strip_where p s"
proof (cases "strip_where p s = []")
  case True
  show ?thesis unfolding True by (rule strip_where_Nil)
next
  case False
  then show ?thesis using strip_where_ends[of p s] by (intro strip_where_id) auto
qed

section \<open>Properties of the page selection\<close>

lemma digit_not_space: "is_digit c \<Longrightarrow> \<not> is_space c \<and> \<not> is_int_space c"
  by (auto simp: is_digit_def is_space_def is_int_space_def)

lemma int_space_is_space: "is_int_space c \<Longrightarrow> is_space c"
  by (auto simp: is_space_def is_int_space_def)

lemma digit_not_sign: "is_digit c \<Longrightarrow> c \<noteq> CHR ''-'' \<and> c \<noteq> CHR ''+'' \<and> c \<noteq> CHR ''_''"
  by (auto simp: is_digit_def code_def)

lemma digits_from_all:
  "list_all is_digit cs \<Longrightarrow> digits_from acc cs = Some (foldl (\<lambda>a c. 10 * a + digit_val c) acc cs)"
  by (induction acc cs rule: digits_from.induct) auto

lemma unsigned_int_number:
  assumes "is_number s"
  shows "unsigned_int s = Some (num_of s)"
proof -
  from assms have d: "list_all is_digit s" and l: "int (length s) \<le> max_str_digits"
    by (auto simp: is_number_def)
  from d have f: "filter is_digit s = s" by (simp add: list_all_iff)
  from assms obtain c cs where s: "s = c # cs" by (cases s) (auto simp: is_number_def)
  from d s have "is_digit c" "list_all is_digit cs" by auto
  then have "digits_from (digit_val c) cs = Some (num_of s)"
    by (simp add: digits_from_all num_of_def s)
  with \<open>is_digit c\<close> l show ?thesis
    unfolding unsigned_int_def f by (simp add: s)
qed

lemma py_strip_number: "is_number s \<Longrightarrow> py_strip s = s"
  unfolding py_strip_def is_number_def
  by (rule strip_where_id) (auto simp: list_all_iff digit_not_space)

lemma int_strip_number: "is_number s \<Longrightarrow> strip_where is_int_space s = s"
  unfolding is_number_def
  by (rule strip_where_id) (auto simp: list_all_iff digit_not_space)

lemma py_int_number:
  assumes "is_number s"
  shows "py_int s = Inr (num_of s)"
proof -
  from assms obtain c cs where s: "s = c # cs" and c: "is_digit c"
    by (cases s) (auto simp: is_number_def)
  from c have "c \<noteq> CHR ''-''" "c \<noteq> CHR ''+''" using digit_not_sign by auto
  have st: "strip_where is_int_space (c # cs) = c # cs"
    using int_strip_number[OF assms] by (simp add: s)
  from \<open>c \<noteq> CHR ''-''\<close> \<open>c \<noteq> CHR ''+''\<close> show ?thesis
    using unsigned_int_number[OF assms]
    by (simp add: py_int_def st Let_def s)
qed

lemma number_no_dash: "is_number s \<Longrightarrow> CHR ''-'' \<notin> set s"
  using digit_not_sign by (auto simp: is_number_def list_all_iff)

lemma parse_chunk_number:
  assumes "is_number t" "int (length sel) + 1 \<le> min cap list_limit"
  shows "parse_chunk cap sel t = Inr (sel @ [num_of t])"
  using assms
  by (simp add: parse_chunk_def py_strip_number number_no_dash py_int_number list_append_def
      min_less_iff_disj min_le_iff_disj)

lemma split_first_range:
  "CHR ''-'' \<notin> set a \<Longrightarrow> split_first (CHR ''-'') (a @ CHR ''-'' # b) = (a, b)"
  by (induction a) (auto simp: split_first_def)

lemma split_first_join:
  "sep \<in> set t \<Longrightarrow> fst (split_first sep t) @ sep # snd (split_first sep t) = t"
proof -
  assume "sep \<in> set t"
  then have "dropWhile (\<lambda>c. c \<noteq> sep) t \<noteq> []" by auto
  moreover have "hd (dropWhile (\<lambda>c. c \<noteq> sep) t) = sep"
    using calculation hd_dropWhile[of "\<lambda>c. c \<noteq> sep" t] by auto
  ultimately have "dropWhile (\<lambda>c. c \<noteq> sep) t = sep # tl (dropWhile (\<lambda>c. c \<noteq> sep) t)"
    by (cases "dropWhile (\<lambda>c. c \<noteq> sep) t") auto
  then have "takeWhile (\<lambda>c. c \<noteq> sep) t @ sep # tl (dropWhile (\<lambda>c. c \<noteq> sep) t) = t"
    by (metis takeWhile_dropWhile_id)
  then show ?thesis by (simp add: split_first_def)
qed

lemma py_strip_range:
  assumes "is_number a" "is_number b"
  shows "py_strip (a @ CHR ''-'' # b) = a @ CHR ''-'' # b"
  unfolding py_strip_def
proof (rule strip_where_id)
  show "a @ CHR ''-'' # b \<noteq> []" by simp
  from assms(1) show "\<not> is_space (hd (a @ CHR ''-'' # b))"
    by (cases a) (auto simp: is_number_def digit_not_space)
  from assms(2) have "b \<noteq> []" "is_digit (last b)"
    by (auto simp: is_number_def list_all_iff)
  then show "\<not> is_space (last (a @ CHR ''-'' # b))"
    by (simp add: digit_not_space)
qed

lemma parse_chunk_range_to:
  assumes "is_number a" "is_number b"
  shows "parse_chunk cap sel (a @ CHR ''-'' # b) = list_extend_range cap sel (num_of a) (num_of b)"
  using assms
  by (simp add: parse_chunk_def py_strip_range split_first_range number_no_dash py_int_number)

lemma parse_chunk_range:
  assumes "is_number a" "is_number b"
    and "range_len (num_of a) (num_of b) \<le> sys_maxsize"
    and "int (length sel) + range_len (num_of a) (num_of b) \<le> min cap list_limit"
  shows "parse_chunk cap sel (a @ CHR ''-'' # b) = Inr (sel @ [num_of a .. num_of b])"
  using assms(3,4) unfolding parse_chunk_range_to[OF assms(1,2)]
  by (simp add: list_extend_range_def min_less_iff_disj min_le_iff_disj)

lemma plain_range:
  assumes "plain_token t" "\<not> is_number t"
  shows "t = fst (split_first (CHR ''-'') t) @ CHR ''-'' # snd (split_first (CHR ''-'') t)
         \<and> is_number (fst (split_first (CHR ''-'') t))
         \<and> is_number (snd (split_first (CHR ''-'') t))"
proof -
  from assms have d: "CHR ''-'' \<in> set t"
    and n: "is_number (fst (split_first (CHR ''-'') t))" "is_number (snd (split_first (CHR ''-'') t))"
    by (auto simp: plain_token_def)
  from d have "fst (split_first (CHR ''-'') t) @ CHR ''-'' # snd (split_first (CHR ''-'') t) = t"
    by (rule split_first_join)
  with n show ?thesis by simp
qed

lemma py_strip_plain: "plain_token t \<Longrightarrow> py_strip t = t"
proof (cases "is_number t")
  case True
  then show ?thesis by (rule py_strip_number)
next
  case False
  assume "plain_token t"
  from plain_range[OF this False] py_strip_range show ?thesis by metis
qed

lemma parse_chunk_plain:
  assumes "plain_token t" "token_size t \<le> sys_maxsize"
    and "int (length sel) + token_size t \<le> min cap list_limit"
  shows "parse_chunk cap sel t = Inr (sel @ sorted_list_of_set (plain_pages t))
         \<and> int (length (sorted_list_of_set (plain_pages t))) = token_size t"
proof (cases "is_number t")
  case True
  then have "token_size t = 1" by (simp add: token_size_def py_strip_number)
  with True assms(3) show ?thesis
    by (simp add: parse_chunk_number plain_pages_def)
next
  case False
  define a where "a = fst (split_first (CHR ''-'') t)"
  define b where "b = snd (split_first (CHR ''-'') t)"
  from plain_range[OF assms(1) False] have t: "t = a @ CHR ''-'' # b"
    and na: "is_number a" and nb: "is_number b"
    unfolding a_def b_def by auto
  have sz: "token_size t = range_len (num_of a) (num_of b)"
    using False by (simp add: token_size_def py_strip_plain[OF assms(1)] a_def b_def)
  have "parse_chunk cap sel (a @ CHR ''-'' # b) = Inr (sel @ [num_of a .. num_of b])"
    using na nb assms(2,3) unfolding sz by (rule parse_chunk_range)
  then have "parse_chunk cap sel t = Inr (sel @ [num_of a .. num_of b])"
    using t by simp
  moreover have "plain_pages t = {num_of a .. num_of b}"
    using False by (simp add: plain_pages_def a_def b_def)
  moreover have "int (length [num_of a .. num_of b]) = range_len (num_of a) (num_of b)"
    by (simp add: range_len_def)
  ultimately show ?thesis using sz by simp
qed

lemma parse_chunk_strip: "parse_chunk cap sel t = parse_chunk cap sel (py_strip t)"
  by (simp add: parse_chunk_def py_strip_def strip_where_idem)

lemma token_size_strip: "token_size (py_strip t) = token_size t"
  by (simp add: token_size_def py_strip_def strip_where_idem)

lemma token_size_nonneg: "0 \<le> token_size t"
  by (simp add: token_size_def range_len_def)

lemma parse_chunk_valid:
  assumes "valid_token t" "token_size t \<le> sys_maxsize"
    and "int (length sel) + token_size t \<le> min cap list_limit"
  shows "parse_chunk cap sel t = Inr (sel @ sorted_list_of_set (token_pages t))
         \<and> int (length (sorted_list_of_set (token_pages t))) = token_size t"
  using assms parse_chunk_plain[of "py_strip t" sel cap] parse_chunk_strip[of cap sel t]
  by (simp add: valid_token_def token_pages_def token_size_strip)

lemma finite_token_pages: "finite (token_pages t)"
  by (simp add: token_pages_def plain_pages_def)

lemma limits_ordered: "list_limit \<le> sys_maxsize"
  by (simp add: list_limit_def sys_maxsize_def)

lemma parse_chunks_valid:
  assumes "list_all valid_token ts"
    and "int (length sel) + sum_list (map token_size ts) \<le> min cap list_limit"
  shows "parse_chunks cap sel ts = Inr (sel @ concat (map (\<lambda>t. sorted_list_of_set (token_pages t)) ts))"
  using assms
proof (induction ts arbitrary: sel)
  case Nil
  then show ?case by simp
next
  case (Cons t ts)
  have rest: "0 \<le> sum_list (map token_size ts)"
    by (rule sum_list_nonneg) (auto simp: token_size_nonneg)
  from Cons.prems(2) rest have here: "int (length sel) + token_size t \<le> min cap list_limit"
    by simp
  then have "token_size t \<le> list_limit" by simp
  then have small: "token_size t \<le> sys_maxsize" using limits_ordered by simp
  from Cons.prems(1) have v: "valid_token t" and vs: "list_all valid_token ts" by auto
  let ?sel1 = "sel @ sorted_list_of_set (token_pages t)"
  from parse_chunk_valid[OF v small here]
  have c: "parse_chunk cap sel t = Inr ?sel1"
    and l: "int (length (sorted_list_of_set (token_pages t))) = token_size t" by auto
  from l Cons.prems(2)
  have "int (length ?sel1) + sum_list (map token_size ts) \<le> min cap list_limit" by simp
  from Cons.IH[OF vs this] c show ?case by simp
qed

lemma set_parse_chunks_valid:
  "set (concat (map (\<lambda>t. sorted_list_of_set (token_pages t)) ts)) = (\<Union>t \<in> set ts. token_pages t)"
  by (simp add: finite_token_pages)

lemma sort_remdups_filter:
  "sort (remdups (filter (\<lambda>p. 1 \<le> p \<and> p \<le> n) ys)) = sorted_list_of_set (set ys \<inter> {1..n::int})"
proof -
  have "set ys \<inter> {1..n} = set (filter (\<lambda>p. 1 \<le> p \<and> p \<le> n) ys)" by auto
  then show ?thesis by (simp only: sorted_list_of_set_sort_remdups)
qed

lemma parse_pages_valid:
  assumes "s \<noteq> []" "list_all valid_token (py_split (CHR '','') s)" "fits cap (py_split (CHR '','') s)"
  shows "parse_pages_within cap (Some s) n =
          Inr (if spec_pages s \<inter> {1..n} = {} then None
               else Some (sorted_list_of_set (spec_pages s \<inter> {1..n})))"
proof -
  let ?ys = "concat (map (\<lambda>t. sorted_list_of_set (token_pages t)) (py_split (CHR '','') s))"
  have ys: "parse_chunks cap [] (py_split (CHR '','') s) = Inr ?ys"
    using parse_chunks_valid[OF assms(2), of "[]" cap] assms(3) by (simp add: fits_def)
  have set_ys: "set ?ys = spec_pages s"
    unfolding spec_pages_def by (rule set_parse_chunks_valid)
  have fin: "finite (spec_pages s \<inter> {1..n})" by simp
  have "sort (remdups (filter (\<lambda>p. 1 \<le> p \<and> p \<le> n) ?ys)) = sorted_list_of_set (spec_pages s \<inter> {1..n})"
    by (simp only: sort_remdups_filter set_ys)
  moreover have "(sorted_list_of_set (spec_pages s \<inter> {1..n}) = []) = (spec_pages s \<inter> {1..n} = {})"
    using fin by (simp only: sorted_list_of_set_eq_Nil_iff)
  ultimately show ?thesis
    using assms(1) ys by (simp add: parse_pages_within_def Let_def)
qed

lemma parse_pages_sound:
  assumes "parse_pages_within cap spec n = Inr (Some xs)"
  shows "xs \<noteq> [] \<and> sorted xs \<and> distinct xs \<and> set xs \<subseteq> {1..n}"
  using assms
  by (auto simp: parse_pages_within_def Let_def split: option.splits if_splits sum.splits)

lemma py_split_no_sep: "sep \<notin> set s \<Longrightarrow> py_split sep s = [s]"
  by (induction s) auto

lemma range_single_token:
  assumes "is_number a" "is_number b"
  shows "py_split (CHR '','') (a @ CHR ''-'' # b) = [a @ CHR ''-'' # b]"
proof -
  have "CHR '','' \<notin> set (a @ CHR ''-'' # b)"
    using assms by (auto simp: is_number_def list_all_iff is_digit_def code_def)
  then show ?thesis by (rule py_split_no_sep)
qed

lemma parse_pages_too_long:
  assumes "is_number a" "is_number b" "sys_maxsize < range_len (num_of a) (num_of b)"
  shows "parse_pages_within cap (Some (a @ CHR ''-'' # b)) n = Inl OverflowError"
  using assms(3)
  by (simp add: parse_pages_within_def range_single_token[OF assms(1,2)]
      parse_chunk_range_to[OF assms(1,2)] list_extend_range_def)

text \<open>
  Claim C3, as the code has it. Whenever \<open>parse_pages\<close> returns a list, the list is
  non-empty, sorted, free of duplicates and within \<open>[1, total]\<close>. An absent or empty
  specification gives \<open>None\<close>. A non-empty specification whose comma-separated tokens
  are all numbers or ranges of numbers (with whitespace around them or not), and whose
  pages fit into a list, raises no error: the result is the sorted list of the denoted
  pages that lie in \<open>[1, total]\<close> (pages outside are dropped), and \<open>None\<close> when no
  denoted page lies there. A range of more than \<open>sys.maxsize\<close> pages raises
  \<open>OverflowError\<close>, whatever the total.
\<close>

theorem parse_pages_selection:
  "(parse_pages_within cap spec total_pages = Inr (Some xs) \<longrightarrow>
      xs \<noteq> [] \<and> sorted xs \<and> distinct xs \<and> set xs \<subseteq> {1..total_pages})
   \<and> (spec = None \<or> spec = Some [] \<longrightarrow> parse_pages_within cap spec total_pages = Inr None)
   \<and> (s \<noteq> [] \<and> list_all valid_token (py_split (CHR '','') s)
       \<and> fits cap (py_split (CHR '','') s) \<longrightarrow>
        parse_pages_within cap (Some s) total_pages =
          Inr (if spec_pages s \<inter> {1..total_pages} = {} then None
               else Some (sorted_list_of_set (spec_pages s \<inter> {1..total_pages}))))
   \<and> (is_number a \<and> is_number b \<and> sys_maxsize < range_len (num_of a) (num_of b) \<longrightarrow>
        parse_pages_within cap (Some (a @ CHR ''-'' # b)) total_pages = Inl OverflowError)"
proof -
  have a: "parse_pages_within cap spec total_pages = Inr (Some xs) \<longrightarrow>
      xs \<noteq> [] \<and> sorted xs \<and> distinct xs \<and> set xs \<subseteq> {1..total_pages}"
    using parse_pages_sound by blast
  have b: "spec = None \<or> spec = Some [] \<longrightarrow> parse_pages_within cap spec total_pages = Inr None"
    by (auto simp: parse_pages_within_def)
  have c: "s \<noteq> [] \<and> list_all valid_token (py_split (CHR '','') s)
       \<and> fits cap (py_split (CHR '','') s) \<longrightarrow>
        parse_pages_within cap (Some s) total_pages =
          Inr (if spec_pages s \<inter> {1..total_pages} = {} then None
               else Some (sorted_list_of_set (spec_pages s \<inter> {1..total_pages})))"
    using parse_pages_valid by blast
  have d: "is_number a \<and> is_number b \<and> sys_maxsize < range_len (num_of a) (num_of b) \<longrightarrow>
        parse_pages_within cap (Some (a @ CHR ''-'' # b)) total_pages = Inl OverflowError"
    using parse_pages_too_long by blast
  from a b c d show ?thesis by (intro conjI)
qed

text \<open>
  The theorem at \<open>"2, 9 ,1-3"\<close>, \<open>"7-9"\<close> and the empty string, with 5 pages and memory
  for every list.
\<close>

theorem parse_pages_selection_witness:
  "list_all valid_token (py_split (CHR '','') ''2, 9 ,1-3'')
   \<and> fits list_limit (py_split (CHR '','') ''2, 9 ,1-3'')
   \<and> spec_pages ''2, 9 ,1-3'' \<inter> {1..5} = {1, 2, 3}
   \<and> parse_pages (Some ''2, 9 ,1-3'') 5 = Inr (Some [1, 2, 3])
   \<and> sorted [1, 2, 3 :: int] \<and> distinct [1, 2, 3 :: int] \<and> set [1, 2, 3 :: int] \<subseteq> {1..5}
   \<and> parse_pages (Some ''7-9'') 5 = Inr None
   \<and> parse_pages (Some []) 5 = Inr None"
proof -
  have v: "list_all valid_token (py_split (CHR '','') ''2, 9 ,1-3'')" by code_simp
  have f: "fits list_limit (py_split (CHR '','') ''2, 9 ,1-3'')" by code_simp
  have p: "spec_pages ''2, 9 ,1-3'' \<inter> {1..5} = {1, 2, 3}" by code_simp
  have v2: "list_all valid_token (py_split (CHR '','') ''7-9'')" by code_simp
  have f2: "fits list_limit (py_split (CHR '','') ''7-9'')" by code_simp
  have p2: "spec_pages ''7-9'' \<inter> {1..5} = {}" by code_simp
  have r: "parse_pages (Some ''2, 9 ,1-3'') 5 = Inr (Some [1, 2, 3])"
    unfolding parse_pages_def
    using parse_pages_selection[of list_limit "Some ''2, 9 ,1-3''" 5 "[1, 2, 3]" "''2, 9 ,1-3''"] v f p
    by simp
  have r2: "parse_pages (Some ''7-9'') 5 = Inr None"
    unfolding parse_pages_def
    using parse_pages_selection[of list_limit "Some ''7-9''" 5 "[]" "''7-9''"] v2 f2 p2
    by simp
  have r3: "parse_pages (Some []) 5 = Inr None"
    unfolding parse_pages_def
    using parse_pages_selection[of list_limit "Some []" 5 "[]" "[]"] by simp
  from parse_pages_selection[of list_limit "Some ''2, 9 ,1-3''" 5 "[1, 2, 3]" "''2, 9 ,1-3''"] r
  have "sorted [1, 2, 3 :: int] \<and> distinct [1, 2, 3 :: int] \<and> set [1, 2, 3 :: int] \<subseteq> {1..5}"
    unfolding parse_pages_def by blast
  with v f p r r2 r3 show ?thesis by blast
qed

text \<open>
  Claim C3 as stated fails. The range \<open>"1-99999999999999999999"\<close> is a valid range and
  all its pages beyond the fifth are out of range for 5 pages, yet they are not dropped:
  \<open>sel.extend\<close> raises \<open>OverflowError\<close> on the range before the filter is reached.
\<close>

theorem parse_pages_selection_counterexample:
  "valid_token ''1-99999999999999999999''
   \<and> parse_pages (Some ''1-99999999999999999999'') 5 = Inl OverflowError"
  by code_simp

lemma digits_from_chars:
  "digits_from acc cs = Some n \<Longrightarrow> c \<in> set cs \<Longrightarrow> is_digit c \<or> c = CHR ''_''"
  by (induction acc cs arbitrary: n rule: digits_from.induct) (auto split: if_splits)

lemma unsigned_int_chars:
  "unsigned_int s = Some n \<Longrightarrow> c \<in> set s \<Longrightarrow> is_digit c \<or> c = CHR ''_''"
  by (cases s) (auto simp: unsigned_int_def split: if_splits dest: digits_from_chars)

lemma py_int_stripped_chars:
  assumes "py_int s = Inr n" "c \<in> set (strip_where is_int_space s)"
  shows "numeric_char c"
proof (cases "strip_where is_int_space s")
  case Nil
  with assms show ?thesis by simp
next
  case (Cons d ds)
  with assms(1) obtain m where
    m: "(d = CHR ''-'' \<and> unsigned_int ds = Some m) \<or> (d = CHR ''+'' \<and> unsigned_int ds = Some m)
        \<or> unsigned_int (d # ds) = Some m"
    by (auto simp: py_int_def Let_def split: if_splits option.splits)
  from assms(2) Cons have "c = d \<or> c \<in> set ds" by simp
  with m show ?thesis
    using unsigned_int_chars[of ds m c] unsigned_int_chars[of "d # ds" m c]
    by (auto simp: numeric_char_def)
qed

lemma py_int_chars:
  assumes "py_int s = Inr n" "c \<in> set s"
  shows "numeric_char c"
proof (cases "is_int_space c")
  case True
  then show ?thesis by (simp add: numeric_char_def int_space_is_space)
next
  case False
  with assms(2) have "c \<in> set (strip_where is_int_space s)"
    by (rule in_strip_where)
  with assms(1) show ?thesis by (rule py_int_stripped_chars)
qed

lemma py_int_nonempty: "py_int s = Inr n \<Longrightarrow> s \<noteq> []"
  by (auto simp: py_int_def Let_def strip_where_Nil)

lemma py_int_error: "py_int s = Inl e \<Longrightarrow> e = ValueError"
  by (auto simp: py_int_def Let_def split: option.splits list.splits if_splits)

lemma parse_chunk_cases:
  "parse_chunk cap sel t = Inl ValueError
   \<or> (py_strip t \<noteq> [] \<and> (\<forall>c \<in> set t. numeric_char c))"
proof (cases "CHR ''-'' \<in> set (py_strip t)")
  case True
  define a where "a = fst (split_first (CHR ''-'') (py_strip t))"
  define b where "b = snd (split_first (CHR ''-'') (py_strip t))"
  from True have t: "py_strip t = a @ CHR ''-'' # b"
    unfolding a_def b_def by (rule split_first_join[symmetric])
  show ?thesis
  proof (cases "py_int a")
    case (Inl e)
    then have "e = ValueError" by (rule py_int_error)
    with Inl True show ?thesis
      by (simp add: parse_chunk_def Let_def a_def case_prod_beta)
  next
    case x: (Inr x)
    show ?thesis
    proof (cases "py_int b")
      case (Inl e)
      then have "e = ValueError" by (rule py_int_error)
      with Inl x True show ?thesis
        by (simp add: parse_chunk_def Let_def a_def b_def case_prod_beta)
    next
      case y: (Inr y)
      have "numeric_char c" if "c \<in> set t" for c
      proof (cases "is_space c")
        case True
        then show ?thesis by (simp add: numeric_char_def)
      next
        case False
        with that have "c \<in> set (py_strip t)"
          unfolding py_strip_def by (rule in_strip_where)
        with t have "c \<in> set a \<or> c = CHR ''-'' \<or> c \<in> set b" by auto
        with x y show ?thesis
          using py_int_chars[of a x c] py_int_chars[of b y c] by (auto simp: numeric_char_def)
      qed
      with True show ?thesis by auto
    qed
  qed
next
  case False
  show ?thesis
  proof (cases "py_int (py_strip t)")
    case (Inl e)
    then have "e = ValueError" by (rule py_int_error)
    with Inl False show ?thesis by (simp add: parse_chunk_def Let_def)
  next
    case x: (Inr x)
    then have ne: "py_strip t \<noteq> []" by (rule py_int_nonempty)
    have "numeric_char c" if "c \<in> set t" for c
    proof (cases "is_space c")
      case True
      then show ?thesis by (simp add: numeric_char_def)
    next
      case False
      with that have "c \<in> set (py_strip t)"
        unfolding py_strip_def by (rule in_strip_where)
      with x show ?thesis by (rule py_int_chars)
    qed
    with ne show ?thesis by auto
  qed
qed

lemma parse_chunk_malformed:
  assumes "malformed_token t"
  shows "parse_chunk cap sel t = Inl ValueError"
proof (rule ccontr)
  assume "parse_chunk cap sel t \<noteq> Inl ValueError"
  with parse_chunk_cases[of cap sel t]
  have "py_strip t \<noteq> []" and "\<forall>c \<in> set t. numeric_char c" by auto
  with assms show False by (auto simp: malformed_token_def list_ex_iff)
qed

lemma parse_chunks_append:
  "parse_chunks cap sel (xs @ ys) =
     (case parse_chunks cap sel xs of
        Inl e \<Rightarrow> Inl e
      | Inr sel1 \<Rightarrow> parse_chunks cap sel1 ys)"
  by (induction xs arbitrary: sel) (auto split: sum.splits)

lemma parse_chunks_raises:
  "t \<in> set ts \<Longrightarrow> (\<And>sel. parse_chunk cap sel t = Inl ValueError) \<Longrightarrow>
   \<exists>e. parse_chunks cap sel ts = Inl e"
proof (induction ts arbitrary: sel)
  case Nil
  then show ?case by simp
next
  case (Cons u us)
  show ?case
  proof (cases "parse_chunk cap sel u")
    case (Inl e)
    then show ?thesis by simp
  next
    case (Inr sel1)
    with Cons.prems(2) have "t \<noteq> u" by auto
    with Cons.prems(1) have "t \<in> set us" by auto
    from Cons.IH[OF this Cons.prems(2)] Inr show ?thesis by simp
  qed
qed

lemma parse_pages_propagates:
  assumes "s \<noteq> []" "py_split (CHR '','') s = pre @ t # post"
    "parse_chunks cap [] pre = Inr sel" "parse_chunk cap sel t = Inl e"
  shows "parse_pages_within cap (Some s) n = Inl e"
  using assms by (simp add: parse_pages_within_def parse_chunks_append)

lemma parse_pages_reversed:
  assumes "is_number a" "is_number b" "num_of b < num_of a"
  shows "parse_chunk cap sel (a @ CHR ''-'' # b) = Inr sel
         \<and> parse_pages_within cap (Some (a @ CHR ''-'' # b)) n = Inr None"
proof -
  from assms(3) have r: "range_len (num_of a) (num_of b) = 0" by (simp add: range_len_def)
  have c: "parse_chunk cap sel' (a @ CHR ''-'' # b) = Inr sel'" for sel'
    unfolding parse_chunk_range_to[OF assms(1,2)]
    using r assms(3) by (simp add: list_extend_range_def sys_maxsize_def)
  from c[of "[]"] c[of sel] show ?thesis
    by (simp add: parse_pages_within_def range_single_token[OF assms(1,2)])
qed

text \<open>
  Claim C7, as the code has it. A non-empty specification with a malformed token (blank,
  or holding a character other than a digit, whitespace, a sign or an underscore) raises
  an error, wherever the token stands. The error a token raises leaves \<open>parse_pages\<close>
  as it is: no error is swallowed. It is \<open>ValueError\<close> for the malformed token when the
  tokens before it are numbers and ranges that fit into a list. A reversed range \<open>a-b\<close>
  with \<open>a > b\<close> raises nothing: \<open>range(a, b + 1)\<close> is empty, the range adds no page,
  and a specification that is only such a range returns \<open>None\<close>.
\<close>

theorem parse_pages_malformed:
  "(s \<noteq> [] \<and> t \<in> set (py_split (CHR '','') s) \<and> malformed_token t \<longrightarrow>
      (\<exists>e. parse_pages_within cap (Some s) total_pages = Inl e))
   \<and> (s \<noteq> [] \<and> py_split (CHR '','') s = pre @ t # post
       \<and> parse_chunks cap [] pre = Inr sel \<and> parse_chunk cap sel t = Inl e \<longrightarrow>
      parse_pages_within cap (Some s) total_pages = Inl e)
   \<and> (s \<noteq> [] \<and> py_split (CHR '','') s = pre @ t # post
       \<and> list_all valid_token pre \<and> fits cap pre \<and> malformed_token t \<longrightarrow>
      parse_pages_within cap (Some s) total_pages = Inl ValueError)
   \<and> (is_number a \<and> is_number b \<and> num_of b < num_of a \<longrightarrow>
        parse_chunk cap sel (a @ CHR ''-'' # b) = Inr sel
        \<and> parse_pages_within cap (Some (a @ CHR ''-'' # b)) total_pages = Inr None)"
proof -
  have c1: "\<exists>e. parse_pages_within cap (Some s) total_pages = Inl e"
    if "s \<noteq> []" "t \<in> set (py_split (CHR '','') s)" "malformed_token t"
  proof -
    from that(3) have "parse_chunk cap sel' t = Inl ValueError" for sel'
      by (rule parse_chunk_malformed)
    with that(2) obtain e' where "parse_chunks cap [] (py_split (CHR '','') s) = Inl e'"
      using parse_chunks_raises by blast
    with that(1) show ?thesis by (simp add: parse_pages_within_def)
  qed
  have c3: "parse_pages_within cap (Some s) total_pages = Inl ValueError"
    if "s \<noteq> []" "py_split (CHR '','') s = pre @ t # post"
      "list_all valid_token pre" "fits cap pre" "malformed_token t"
  proof -
    let ?sel = "concat (map (\<lambda>t. sorted_list_of_set (token_pages t)) pre)"
    have "parse_chunks cap [] pre = Inr ?sel"
      using parse_chunks_valid[OF that(3), of "[]" cap] that(4) by (simp add: fits_def)
    moreover have "parse_chunk cap ?sel t = Inl ValueError"
      using that(5) by (rule parse_chunk_malformed)
    ultimately show ?thesis using that(1,2) by (rule parse_pages_propagates[rotated 2])
  qed
  from c1 c3 show ?thesis
    using parse_pages_propagates[of s pre t post cap sel e total_pages]
      parse_pages_reversed[of a b cap sel total_pages]
    by blast
qed

text \<open>The theorem at \<open>"1,x7,3"\<close> and at the reversed range \<open>"5-3"\<close>.\<close>

theorem parse_pages_malformed_witness:
  "malformed_token ''x7'' \<and> py_split (CHR '','') ''1,x7,3'' = [''1''] @ ''x7'' # [''3'']
   \<and> list_all valid_token [''1''] \<and> fits list_limit [''1'']
   \<and> parse_pages (Some ''1,x7,3'') 10 = Inl ValueError
   \<and> is_number ''5'' \<and> is_number ''3'' \<and> num_of ''3'' < num_of ''5''
   \<and> parse_chunk list_limit [] ''5-3'' = Inr [] \<and> parse_pages (Some ''5-3'') 10 = Inr None"
proof -
  have m: "malformed_token ''x7''" by code_simp
  have i: "py_split (CHR '','') ''1,x7,3'' = [''1''] @ ''x7'' # [''3'']" by code_simp
  have v: "list_all valid_token [''1'']" "fits list_limit [''1'']" by code_simp+
  have n: "is_number ''5''" "is_number ''3''" "num_of ''3'' < num_of ''5''" by code_simp+
  have ne: "''1,x7,3'' \<noteq> []" by simp
  from parse_pages_malformed[of "''1,x7,3''" "''x7''" list_limit 10 "[''1'']" "[''3'']" "[]" _
      "''5''" "''3''"] m i v n ne
  have "parse_pages_within list_limit (Some ''1,x7,3'') 10 = Inl ValueError"
    and "parse_chunk list_limit [] (''5'' @ CHR ''-'' # ''3'') = Inr []"
    and "parse_pages_within list_limit (Some (''5'' @ CHR ''-'' # ''3'')) 10 = Inr None"
    by blast+
  with m i v n show ?thesis by (simp add: parse_pages_def)
qed

text \<open>
  Claim C7 as stated fails: the reversed range \<open>"5-3"\<close> raises no error, alone or beside
  other tokens.
\<close>

theorem parse_pages_reversed_range_counterexample:
  "parse_pages (Some ''5-3'') 10 = Inr None \<and> parse_pages (Some ''1,5-3'') 10 = Inr (Some [1])"
  by code_simp

text \<open>
  Claim C6, as the code has it. \<open>"1,3-5"\<close> gives \<open>[1, 3, 4, 5]\<close> for 10 pages and
  \<open>[1, 3]\<close> for 3 pages: page 3 satisfies \<open>1 \<le> p \<le> total\<close> and is kept.
\<close>

theorem parse_pages_example:
  "parse_pages (Some ''1,3-5'') 10 = Inr (Some [1, 3, 4, 5])
   \<and> parse_pages (Some ''1,3-5'') 3 = Inr (Some [1, 3])"
  by code_simp

text \<open>Claim C6 as stated fails: for 3 pages the result is not \<open>[1]\<close>.\<close>

theorem parse_pages_example_counterexample:
  "parse_pages (Some ''1,3-5'') 3 \<noteq> Inr (Some [1])"
  by code_simp

section \<open>Properties of the slug\<close>


















section \<open>Properties of the header formatting\<close>

lemma py_split_nonempty: "py_split sep s \<noteq> []"
  by (induction s) (auto split: list.splits)

lemma join_lines_Cons: "join_lines ((a @ l) # ls) = a @ join_lines (l # ls)"
  by (cases ls) auto

lemma join_lines_Nil_Cons: "ls \<noteq> [] \<Longrightarrow> join_lines ([] # ls) = newline # join_lines ls"
  by (cases ls) auto

lemma join_split: "join_lines (py_split newline s) = s"
proof (induction s)
  case Nil
  then show ?case by simp
next
  case (Cons c cs)
  show ?case
  proof (cases "c = newline")
    case True
    with Cons show ?thesis by (simp add: join_lines_Nil_Cons py_split_nonempty)
  next
    case False
    obtain l ls where s: "py_split newline cs = l # ls"
      using py_split_nonempty[of newline cs] by (cases "py_split newline cs") auto
    have "join_lines ((c # l) # ls) = c # join_lines (l # ls)"
      using join_lines_Cons[of "[c]" l ls] by simp
    with Cons False s show ?thesis by simp
  qed
qed

lemma prefix_first_line:
  "newline \<notin> set h \<Longrightarrow> prefix h s = prefix h (hd (py_split newline s))"
proof (induction s arbitrary: h)
  case Nil
  then show ?case by simp
next
  case (Cons c cs)
  show ?case
  proof (cases h)
    case Nil
    then show ?thesis by simp
  next
    case (Cons d ds)
    with Cons.prems have d: "d \<noteq> newline" "newline \<notin> set ds" by auto
    show ?thesis
    proof (cases "c = newline")
      case True
      with d Cons show ?thesis by auto
    next
      case False
      obtain l ls where s: "py_split newline cs = l # ls"
        using py_split_nonempty[of newline cs] by (cases "py_split newline cs") auto
      from Cons.IH[OF d(2)] s have "prefix ds cs = prefix ds l" by simp
      with False s Cons show ?thesis by simp
    qed
  qed
qed

lemma py_split_append_first:
  assumes "newline \<notin> set a" "py_split newline t = l # ls"
  shows "py_split newline (a @ t) = (a @ l) # ls"
  using assms by (induction a) auto

lemma sub_line_start_lines:
  assumes "h \<noteq> []" "newline \<notin> set h"
  shows "sub_line_start h r bol s =
          join_lines (case py_split newline s of
                        [] \<Rightarrow> []
                      | l # ls \<Rightarrow> (if bol then replace_prefix h r l else l)
                                   # map (replace_prefix h r) ls)"
  using assms
proof (induction h r bol s rule: sub_line_start.induct)
  case (1 h r bol)
  then show ?case by (simp add: replace_prefix_def)
next
  case (2 h r bol c cs)
  have lh: "last h \<noteq> newline" using "2.prems" by (metis last_in_set)
  show ?case
  proof (cases "bol \<and> prefix h (c # cs)")
    case True
    define t where "t = drop (length h) (c # cs)"
    from True have s: "c # cs = h @ t"
      unfolding t_def by (metis append_take_drop_id prefix_def append_eq_conv_conj)
    obtain l ls where sp: "py_split newline t = l # ls"
      using py_split_nonempty[of newline t] by (cases "py_split newline t") auto
    have ih: "sub_line_start h r False t = join_lines (l # map (replace_prefix h r) ls)"
      using "2.IH"(1) True "2.prems" lh sp unfolding t_def by simp
    have sp': "py_split newline (c # cs) = (h @ l) # ls"
      unfolding s using "2.prems"(2) sp by (rule py_split_append_first)
    have "sub_line_start h r bol (c # cs) = r @ sub_line_start h r False t"
      using True "2.prems"(1) lh unfolding t_def by simp
    also have "\<dots> = join_lines ((r @ l) # map (replace_prefix h r) ls)"
      by (simp only: ih join_lines_Cons)
    also have "r @ l = replace_prefix h r (h @ l)"
      by (simp add: replace_prefix_def)
    finally show ?thesis using True sp' by simp
  next
    case False
    obtain l ls where sp: "py_split newline cs = l # ls"
      using py_split_nonempty[of newline cs] by (cases "py_split newline cs") auto
    have step: "sub_line_start h r bol (c # cs) = c # sub_line_start h r (c = newline) cs"
      using False by auto
    have ih: "sub_line_start h r (c = newline) cs =
               join_lines ((if c = newline then replace_prefix h r l else l)
                           # map (replace_prefix h r) ls)"
      using "2.IH"(2) False "2.prems" sp by simp
    show ?thesis
    proof (cases "c = newline")
      case True
      have e: "replace_prefix h r [] = []"
        using "2.prems"(1) by (simp add: replace_prefix_def)
      from True sp have "py_split newline (c # cs) = [] # l # ls" by simp
      with step ih True e show ?thesis by simp
    next
      case nn: False
      from nn sp have sp': "py_split newline (c # cs) = (c # l) # ls" by simp
      have j: "join_lines ((c # l) # map (replace_prefix h r) ls)
                = c # join_lines (l # map (replace_prefix h r) ls)"
        using join_lines_Cons[of "[c]" l "map (replace_prefix h r) ls"] by simp
      have "bol \<Longrightarrow> replace_prefix h r (c # l) = c # l"
      proof -
        assume bol
        with False have "\<not> prefix h (c # cs)" by simp
        moreover have "prefix h (c # cs) = prefix h (c # l)"
          using prefix_first_line[OF "2.prems"(2), of "c # cs"] sp' by simp
        ultimately show ?thesis by (simp add: replace_prefix_def)
      qed
      with step ih nn sp' j show ?thesis by auto
    qed
  qed
qed

lemma headers_shape:
  "h \<in> set headers \<Longrightarrow> h \<noteq> [] \<and> newline \<notin> set h"
  by (auto simp: headers_def)

lemma sub_line_start_pass:
  "h \<in> set headers \<Longrightarrow> sub_line_start h (bold_header h) True b = rewrite_pass h b"
proof -
  assume "h \<in> set headers"
  then have h: "h \<noteq> []" "newline \<notin> set h" using headers_shape by auto
  obtain l ls where sp: "py_split newline b = l # ls"
    using py_split_nonempty[of newline b] by (cases "py_split newline b") auto
  show ?thesis
    unfolding sub_line_start_lines[OF h] rewrite_pass_def sp
    by (simp add: rewrite_line_def[abs_def])
qed

lemma foldl_passes:
  "set hs \<subseteq> set headers \<Longrightarrow>
   foldl (\<lambda>b h. sub_line_start h (bold_header h) True b) b hs = foldl (\<lambda>b h. rewrite_pass h b) b hs"
  by (induction hs arbitrary: b) (auto simp: sub_line_start_pass)

lemma format_by_lines:
  "format_annotation_headers body = foldl (\<lambda>b h. rewrite_pass h b) body headers"
  unfolding format_annotation_headers_def by (rule foldl_passes) simp

lemma rewrite_pass_noop:
  assumes "\<forall>l \<in> set (py_split newline b). \<not> prefix h l"
  shows "rewrite_pass h b = b"
proof -
  have "map (rewrite_line h) (py_split newline b) = py_split newline b"
    using assms by (intro map_idI) (simp add: rewrite_line_def replace_prefix_def)
  then show ?thesis by (simp add: rewrite_pass_def join_split)
qed

lemma foldl_noop:
  assumes "\<forall>l \<in> set (py_split newline b). \<forall>h \<in> set hs. \<not> prefix h l"
  shows "foldl (\<lambda>b h. rewrite_pass h b) b hs = b"
  using assms by (induction hs) (auto simp: rewrite_pass_noop)

lemma format_noop: "header_free b \<Longrightarrow> format_annotation_headers b = b"
  unfolding format_by_lines
  by (rule foldl_noop) (auto simp: header_free_def starts_with_header_def list_all_iff list_ex_iff)


lemma py_split_append:
  "py_split newline (xs @ newline # ys) = py_split newline xs @ py_split newline ys"
proof (induction xs)
  case Nil
  then show ?case by simp
next
  case (Cons c cs)
  obtain l ls where sp: "py_split newline cs = l # ls"
    using py_split_nonempty[of newline cs] by (cases "py_split newline cs") auto
  with Cons show ?case by (auto split: list.splits)
qed

lemma py_split_join:
  "ls \<noteq> [] \<Longrightarrow> py_split newline (join_lines ls) = concat (map (py_split newline) ls)"
  by (induction ls rule: join_lines.induct) (auto simp: py_split_append)

lemma py_split_line: "l \<in> set (py_split sep s) \<Longrightarrow> sep \<notin> set l"
proof (induction s arbitrary: l)
  case Nil
  then show ?case by simp
next
  case (Cons c cs)
  obtain m ms where sp: "py_split sep cs = m # ms"
    using py_split_nonempty[of sep cs] by (cases "py_split sep cs") auto
  with Cons show ?case by (auto split: if_splits)
qed

lemma bold_header_shape:
  "h \<in> set headers \<Longrightarrow>
   bold_header h = butlast (bold_header h) @ [newline]
   \<and> newline \<notin> set (butlast (bold_header h))
   \<and> \<not> starts_with_header (butlast (bold_header h))"
proof -
  have "list_all (\<lambda>h. bold_header h = butlast (bold_header h) @ [newline]
          \<and> newline \<notin> set (butlast (bold_header h))
          \<and> \<not> starts_with_header (butlast (bold_header h))) headers"
    by code_simp
  then show "h \<in> set headers \<Longrightarrow> ?thesis" by (simp add: list_all_iff)
qed

lemma py_split_rewrite_line:
  assumes "h \<in> set headers" "newline \<notin> set l"
  shows "py_split newline (rewrite_line h l) =
          (if prefix h l then [butlast (bold_header h), drop (length h) l] else [l])"
proof (cases "prefix h l")
  case True
  from assms(1) have b: "bold_header h = butlast (bold_header h) @ [newline]"
    and nb: "newline \<notin> set (butlast (bold_header h))"
    using bold_header_shape by auto
  from assms(2) have nd: "newline \<notin> set (drop (length h) l)"
    by (auto dest: in_set_dropD)
  have "rewrite_line h l = butlast (bold_header h) @ newline # drop (length h) l"
    using True b by (simp add: rewrite_line_def replace_prefix_def)
  then show ?thesis
    using True nb nd by (simp add: py_split_append py_split_no_sep)
next
  case False
  with assms(2) show ?thesis
    by (simp add: rewrite_line_def replace_prefix_def py_split_no_sep)
qed

lemma lines_rewrite_pass:
  assumes "h \<in> set headers" "l' \<in> set (py_split newline (rewrite_pass h b))"
  shows "\<exists>l \<in> set (py_split newline b).
           (prefix h l \<and> (l' = butlast (bold_header h) \<or> l' = drop (length h) l))
           \<or> (\<not> prefix h l \<and> l' = l)"
proof -
  have "py_split newline (rewrite_pass h b)
          = concat (map (py_split newline) (map (rewrite_line h) (py_split newline b)))"
    unfolding rewrite_pass_def by (rule py_split_join) (simp add: py_split_nonempty)
  with assms(2) obtain l where l: "l \<in> set (py_split newline b)"
      "l' \<in> set (py_split newline (rewrite_line h l))"
    by auto
  from l(1) have "newline \<notin> set l" by (rule py_split_line)
  with assms(1) have "py_split newline (rewrite_line h l) =
          (if prefix h l then [butlast (bold_header h), drop (length h) l] else [l])"
    by (rule py_split_rewrite_line)
  with l show ?thesis by (auto split: if_splits)
qed

lemma rewrite_pass_invariant:
  assumes "h \<in> set headers" "H \<subseteq> set headers"
    and "\<forall>l \<in> set (py_split newline b).
           (\<forall>g \<in> H. \<not> prefix g l)
           \<and> (\<forall>g \<in> set headers. prefix g l \<longrightarrow> \<not> starts_with_header (drop (length g) l))"
  shows "\<forall>l \<in> set (py_split newline (rewrite_pass h b)).
           (\<forall>g \<in> insert h H. \<not> prefix g l)
           \<and> (\<forall>g \<in> set headers. prefix g l \<longrightarrow> \<not> starts_with_header (drop (length g) l))"
proof
  fix l' assume "l' \<in> set (py_split newline (rewrite_pass h b))"
  with assms(1) obtain l where l: "l \<in> set (py_split newline b)"
    and c: "(prefix h l \<and> (l' = butlast (bold_header h) \<or> l' = drop (length h) l))
           \<or> (\<not> prefix h l \<and> l' = l)"
    using lines_rewrite_pass by blast
  from assms(3) l have pl: "\<forall>g \<in> H. \<not> prefix g l"
    and ql: "\<forall>g \<in> set headers. prefix g l \<longrightarrow> \<not> starts_with_header (drop (length g) l)"
    by auto
  have nb: "\<not> starts_with_header (butlast (bold_header h))"
    using assms(1) bold_header_shape by blast
  have free: "\<not> starts_with_header m \<Longrightarrow> g \<in> set headers \<Longrightarrow> \<not> prefix g m" for m g
    by (auto simp: starts_with_header_def list_ex_iff)
  from c show "(\<forall>g \<in> insert h H. \<not> prefix g l')
           \<and> (\<forall>g \<in> set headers. prefix g l' \<longrightarrow> \<not> starts_with_header (drop (length g) l'))"
  proof (elim disjE conjE)
    assume "prefix h l" "l' = butlast (bold_header h)"
    with nb assms(1,2) show ?thesis using free[of l'] by blast
  next
    assume "prefix h l" "l' = drop (length h) l"
    with ql assms(1) have "\<not> starts_with_header l'" by blast
    with assms(1,2) show ?thesis using free[of l'] by blast
  next
    assume "\<not> prefix h l" "l' = l"
    with pl ql show ?thesis by blast
  qed
qed

lemma foldl_invariant:
  assumes "set hs \<subseteq> set headers" "H \<subseteq> set headers"
    and "\<forall>l \<in> set (py_split newline b).
           (\<forall>g \<in> H. \<not> prefix g l)
           \<and> (\<forall>g \<in> set headers. prefix g l \<longrightarrow> \<not> starts_with_header (drop (length g) l))"
  shows "\<forall>l \<in> set (py_split newline (foldl (\<lambda>b h. rewrite_pass h b) b hs)).
           (\<forall>g \<in> H \<union> set hs. \<not> prefix g l)"
  using assms
proof (induction hs arbitrary: b H)
  case Nil
  then show ?case by simp
next
  case (Cons h hs)
  from Cons.prems have h: "h \<in> set headers" and hs: "set hs \<subseteq> set headers"
    and H': "insert h H \<subseteq> set headers" by auto
  have "\<forall>l \<in> set (py_split newline (rewrite_pass h b)).
           (\<forall>g \<in> insert h H. \<not> prefix g l)
           \<and> (\<forall>g \<in> set headers. prefix g l \<longrightarrow> \<not> starts_with_header (drop (length g) l))"
    using h Cons.prems(2,3) by (rule rewrite_pass_invariant)
  with Cons.IH[OF hs H'] have
    "\<forall>l \<in> set (py_split newline (foldl (\<lambda>b h. rewrite_pass h b) (rewrite_pass h b) hs)).
        \<forall>g \<in> insert h H \<union> set hs. \<not> prefix g l"
    by blast
  then show ?case by simp
qed

lemma format_header_free:
  assumes "no_header_follows b"
  shows "header_free (format_annotation_headers b)"
proof -
  from assms have "\<forall>l \<in> set (py_split newline b).
           (\<forall>g \<in> {}. \<not> prefix g l)
           \<and> (\<forall>g \<in> set headers. prefix g l \<longrightarrow> \<not> starts_with_header (drop (length g) l))"
    by (auto simp: no_header_follows_def list_all_iff)
  with foldl_invariant[of headers "{}" b]
  have "\<forall>l \<in> set (py_split newline (format_annotation_headers b)). \<forall>g \<in> set headers. \<not> prefix g l"
    unfolding format_by_lines by simp
  then show ?thesis
    by (auto simp: header_free_def starts_with_header_def list_all_iff list_ex_iff)
qed

lemma format_idem:
  "no_header_follows b \<Longrightarrow>
   format_annotation_headers (format_annotation_headers b) = format_annotation_headers b"
  by (rule format_noop) (rule format_header_free)


text \<open>
  Claim C5, as the code has it. Header formatting is one pass per recognized header, in
  the order of the list (\<open>Title:\<close> first). A pass cuts the text it receives into lines
  and replaces its header at the start of every line that begins with it by the bold form
  and a newline; the rest of the line, and every line that does not begin with the
  header, stays as it is. A text with no recognized header at the start of a line is
  returned unchanged.
\<close>

theorem format_headers_by_line:
  "format_annotation_headers body = foldl (\<lambda>b h. rewrite_pass h b) body headers
   \<and> (header_free body \<longrightarrow> format_annotation_headers body = body)"
  using format_by_lines format_noop by blast

text \<open>
  The theorem at a text whose only header stands inside a line, and at a text with
  headers at the start of the first and the third line.
\<close>

theorem format_headers_by_line_witness:
  "header_free ''see Title: here''
   \<and> format_annotation_headers ''see Title: here'' = ''see Title: here''
   \<and> format_annotation_headers
        (''Explanation: a'' @ [newline] @ ''see Title: here'' @ [newline] @ ''Intuition: b'')
      = ''**Explanation:**'' @ [newline] @ '' a'' @ [newline] @ ''see Title: here''
        @ [newline] @ ''**Intuition:**'' @ [newline] @ '' b''"
proof -
  have f: "header_free ''see Title: here''" by code_simp
  have r: "foldl (\<lambda>b h. rewrite_pass h b)
        (''Explanation: a'' @ [newline] @ ''see Title: here'' @ [newline] @ ''Intuition: b'')
        headers
      = ''**Explanation:**'' @ [newline] @ '' a'' @ [newline] @ ''see Title: here''
        @ [newline] @ ''**Intuition:**'' @ [newline] @ '' b''"
    by code_simp
  from format_headers_by_line[of "''see Title: here''"] f
  have "format_annotation_headers ''see Title: here'' = ''see Title: here''" by blast
  moreover from format_headers_by_line[of
      "''Explanation: a'' @ [newline] @ ''see Title: here'' @ [newline] @ ''Intuition: b''"]
  have "format_annotation_headers
        (''Explanation: a'' @ [newline] @ ''see Title: here'' @ [newline] @ ''Intuition: b'')
      = ''**Explanation:**'' @ [newline] @ '' a'' @ [newline] @ ''see Title: here''
        @ [newline] @ ''**Intuition:**'' @ [newline] @ '' b''"
    unfolding r by blast
  ultimately show ?thesis using f by blast
qed

text \<open>
  Claim C5 as stated fails. In \<open>"Title:Explanation: foo"\<close> the header \<open>Explanation:\<close>
  does not stand at the start of a line, and yet it is rewritten: the pass for
  \<open>Title:\<close> runs first and its newline puts \<open>Explanation:\<close> at the start of a line.
\<close>

theorem format_headers_by_line_counterexample:
  "py_split newline ''Title:Explanation: foo'' = [''Title:Explanation: foo'']
   \<and> format_annotation_headers ''Title:Explanation: foo''
       = ''**Title:**'' @ [newline] @ ''**Explanation:**'' @ [newline] @ '' foo''
   \<and> format_annotation_headers ''Title:Explanation: foo''
       \<noteq> ''**Title:**'' @ [newline] @ ''Explanation: foo''"
  by code_simp

text \<open>
  Claim C10, as the code has it. Where no recognized header at the start of a line is
  directly followed by a recognized header, the formatted text has no recognized header
  at the start of a line (a bold form begins with \<open>**\<close>), and formatting it again
  changes nothing.
\<close>

theorem format_headers_idempotent:
  "no_header_follows b \<Longrightarrow>
   header_free (format_annotation_headers b)
   \<and> format_annotation_headers (format_annotation_headers b) = format_annotation_headers b"
  using format_header_free format_idem by blast

text \<open>The theorem at a text of two sections.\<close>

theorem format_headers_idempotent_witness:
  "no_header_follows (''Explanation: a'' @ [newline] @ ''Intuition: b'')
   \<and> format_annotation_headers (''Explanation: a'' @ [newline] @ ''Intuition: b'')
       = ''**Explanation:**'' @ [newline] @ '' a'' @ [newline] @ ''**Intuition:**'' @ [newline] @ '' b''
   \<and> format_annotation_headers
        (''**Explanation:**'' @ [newline] @ '' a'' @ [newline] @ ''**Intuition:**'' @ [newline] @ '' b'')
       = ''**Explanation:**'' @ [newline] @ '' a'' @ [newline] @ ''**Intuition:**'' @ [newline] @ '' b''"
proof -
  have n: "no_header_follows (''Explanation: a'' @ [newline] @ ''Intuition: b'')" by code_simp
  have e: "format_annotation_headers (''Explanation: a'' @ [newline] @ ''Intuition: b'')
       = ''**Explanation:**'' @ [newline] @ '' a'' @ [newline] @ ''**Intuition:**'' @ [newline] @ '' b''"
    by code_simp
  from format_headers_idempotent[OF n]
  have "format_annotation_headers
          (format_annotation_headers (''Explanation: a'' @ [newline] @ ''Intuition: b''))
        = format_annotation_headers (''Explanation: a'' @ [newline] @ ''Intuition: b'')"
    by blast
  then show ?thesis using n e unfolding e by blast
qed

text \<open>
  Claim C10 as stated fails. On \<open>"Intuition:Explanation:"\<close> the pass for
  \<open>Explanation:\<close> runs before the pass for \<open>Intuition:\<close> has put it at the start of a
  line; the second application rewrites it.
\<close>

theorem format_headers_idempotent_counterexample:
  "format_annotation_headers ''Intuition:Explanation:''
     = ''**Intuition:**'' @ [newline] @ ''Explanation:''
   \<and> format_annotation_headers (format_annotation_headers ''Intuition:Explanation:'')
     = ''**Intuition:**'' @ [newline] @ ''**Explanation:**'' @ [newline]
   \<and> format_annotation_headers (format_annotation_headers ''Intuition:Explanation:'')
     \<noteq> format_annotation_headers ''Intuition:Explanation:''"
  by code_simp

section \<open>Properties of the page geometry\<close>






section \<open>Properties of the renderer's sizes\<close>

lemma show_nat_small: "n < 10 \<Longrightarrow> show_nat n = [char_of (48 + n)]"
  by simp

lemma show_nat_large: "10 \<le> n \<Longrightarrow> show_nat n = show_nat (n div 10) @ [char_of (48 + n mod 10)]"
  by (subst show_nat.simps) simp

lemma rect_size_nonneg: "0 \<le> rect_width r \<and> 0 \<le> rect_height r"
  by (simp add: rect_width_def rect_height_def)

lemma int_of_float_floor: "0 \<le> x \<Longrightarrow> int_of_float x = \<lfloor>x\<rfloor>"
  by (simp add: int_of_float_def)

lemma render_env_sizes:
  "render_env env r ''NOTE_WIDTH'' = Some (py_str \<lfloor>rect_width r\<rfloor>)
   \<and> render_env env r ''NOTE_HEIGHT'' = Some (py_str \<lfloor>rect_height r\<rfloor>)"
  using rect_size_nonneg[of r] by (simp add: render_env_def int_of_float_floor)

lemma render_uses_env:
  "\<exists>evs. trace (fst (render_md_to_pdf c w md script r))
           = trace w @ RunNode script (render_env (os_environ c) r) md # evs"
  by (simp add: render_md_to_pdf_def Let_def emit_def)

lemma py_str_100: "py_str 100 = ''100''"
  by code_simp

lemma width_example: "rect_width (Rect 0 0 (1007 / 10) 50) = 1007 / 10"
  by (simp add: rect_width_def Rect_def)

lemma floor_example: "\<lfloor>1007 / 10 :: real\<rfloor> = 100"
  by simp

text \<open>
  Claim C8, as the code has it. The renderer is run with an environment in which
  \<open>NOTE_WIDTH\<close> and \<open>NOTE_HEIGHT\<close> are the decimal texts of the width and the height of
  the notes rectangle with the fraction cut off: \<open>int\<close> truncates, it does not round. A
  width of 100.7 is passed as \<open>100\<close>.
\<close>

theorem render_env_truncates:
  "(\<exists>evs. trace (fst (render_md_to_pdf c w md script r))
           = trace w @ RunNode script (render_env (os_environ c) r) md # evs)
   \<and> render_env env r ''NOTE_WIDTH'' = Some (py_str \<lfloor>rect_width r\<rfloor>)
   \<and> render_env env r ''NOTE_HEIGHT'' = Some (py_str \<lfloor>rect_height r\<rfloor>)
   \<and> of_int \<lfloor>rect_width r\<rfloor> \<le> rect_width r
   \<and> rect_width r < of_int \<lfloor>rect_width r\<rfloor> + 1
   \<and> of_int \<lfloor>rect_height r\<rfloor> \<le> rect_height r
   \<and> rect_height r < of_int \<lfloor>rect_height r\<rfloor> + 1
   \<and> render_env env (Rect 0 0 (1007 / 10) 50) ''NOTE_WIDTH'' = Some ''100''"
proof -
  have "render_env env (Rect 0 0 (1007 / 10) 50) ''NOTE_WIDTH'' = Some ''100''"
    using render_env_sizes[of env "Rect 0 0 (1007 / 10) 50"]
    by (simp only: width_example floor_example py_str_100)
  then show ?thesis
    using render_uses_env[of c w md script r] render_env_sizes[of env r] by simp
qed

text \<open>The theorem at a notes rectangle of 250.5 by 99.9 units.\<close>

theorem render_env_truncates_witness:
  "render_env Map.empty (Rect 10 0 (521 / 2) (999 / 10)) ''NOTE_WIDTH'' = Some ''250''
   \<and> render_env Map.empty (Rect 10 0 (521 / 2) (999 / 10)) ''NOTE_HEIGHT'' = Some ''99''"
proof -
  have w: "rect_width (Rect 10 0 (521 / 2) (999 / 10)) = 501 / 2"
    and h: "rect_height (Rect 10 0 (521 / 2) (999 / 10)) = 999 / 10"
    by (simp_all add: rect_width_def rect_height_def Rect_def)
  have f: "\<lfloor>501 / 2 :: real\<rfloor> = 250" "\<lfloor>999 / 10 :: real\<rfloor> = 99" by simp_all
  have s: "py_str 250 = ''250''" "py_str 99 = ''99''"
    by code_simp+
  from render_env_truncates[of _ _ _ _ "Rect 10 0 (521 / 2) (999 / 10)" Map.empty]
  show ?thesis unfolding w h f s by blast
qed

text \<open>
  Claim C8 as stated fails: a width of 100.7 page units is passed as \<open>100\<close>, not as the
  rounded \<open>101\<close>.
\<close>

theorem render_env_truncates_counterexample:
  "render_env Map.empty (Rect 0 0 (1007 / 10) 50) ''NOTE_WIDTH'' = Some ''100''
   \<and> render_env Map.empty (Rect 0 0 (1007 / 10) 50) ''NOTE_WIDTH'' \<noteq> Some ''101''"
proof -
  have "render_env Map.empty (Rect 0 0 (1007 / 10) 50) ''NOTE_WIDTH'' = Some ''100''"
    using render_env_sizes[of Map.empty "Rect 0 0 (1007 / 10) 50"]
    by (simp only: width_example floor_example py_str_100)
  then show ?thesis by simp
qed

section \<open>Properties of the run\<close>

lemma begin_page_keeps:
  "calls (begin_page cfg w pg idx) = calls w \<and> files (begin_page cfg w pg idx) = files w"
  by (simp add: begin_page_def Let_def emit_def)

lemma call_gpt5_from_calls: "calls w < calls (fst (call_gpt5_from c attempt w p))"
proof (induction c attempt w p rule: call_gpt5_from.induct)
  case (1 c attempt w p)
  show ?case
  proof (cases "service c (calls w) p")
    case Fails
    show ?thesis
    proof (cases "5 \<le> attempt")
      case True
      with Fails show ?thesis
        by (subst call_gpt5_from.simps) (simp add: Let_def emit_def)
    next
      case False
      let ?w1 = "emit (w\<lparr>calls := calls w + 1\<rparr>) [Request (calls w) p]"
      let ?w2 = "emit ?w1 [Sleep (wait_exponential_jitter 1 20 attempt (jitter c (calls w)))]"
      from "1.IH"[OF refl refl Fails False]
      have "calls ?w2 < calls (fst (call_gpt5_from c (attempt + 1) ?w2 p))" .
      moreover have "calls ?w2 = calls w + 1" by (simp add: emit_def)
      moreover have "call_gpt5_from c attempt w p = call_gpt5_from c (attempt + 1) ?w2 p"
        using Fails False by (subst call_gpt5_from.simps) (simp add: Let_def)
      ultimately show ?thesis by simp
    qed
  next
    case Interrupted
    then show ?thesis
      by (subst call_gpt5_from.simps) (simp add: Let_def emit_def)
  next
    case (Returns t)
    then show ?thesis
      by (subst call_gpt5_from.simps) (simp add: Let_def emit_def)
  qed
qed

lemma call_gpt5_calls: "call_gpt5 c w p = (w1, r) \<Longrightarrow> calls w < calls w1"
  using call_gpt5_from_calls[of w c 1 p] by (simp add: call_gpt5_def)

lemma read_text_plain: "CHR 0x0D \<notin> set t \<Longrightarrow> read_text t = t"
  by (induction t) auto

lemma md_pdf_distinct: "md_path cfg idx \<noteq> pdf_path cfg idx"
proof -
  have m: "Path ''note.md'' = \<lparr>absolute = False, parts = [''note.md'']\<rparr>"
    by (simp add: Path_def)
  have p: "Path ''note.pdf'' = \<lparr>absolute = False, parts = [''note.pdf'']\<rparr>"
    by (simp add: Path_def)
  show ?thesis
    unfolding md_path_def pdf_path_def path_join_def[of _ "''note.md''"]
      path_join_def[of _ "''note.pdf''"] m p
    by simp
qed

lemma place_note_trace:
  "\<exists>evs. trace (fst (place_note c cfg w note r idx))
           = trace w @ RunNode (node_script cfg) (render_env (os_environ c) r) note # evs"
  by (simp add: place_note_def render_md_to_pdf_def Let_def emit_def)

lemma place_note_keeps:
  "calls (fst (place_note c cfg w note r idx)) = calls w
   \<and> files (fst (place_note c cfg w note r idx)) (md_path cfg idx) = files w (md_path cfg idx)"
  using md_pdf_distinct[of cfg idx]
  by (simp add: place_note_def render_md_to_pdf_def Let_def emit_def)

lemma page_note_hit:
  assumes "\<not> force cfg" "files w (md_path cfg idx) = Some t"
  shows "page_note c cfg w pg idx = (w, Inr (read_text t))"
  using assms by (simp add: page_note_def)

lemma page_note_miss:
  assumes "force cfg \<or> files w (md_path cfg idx) = None"
    and "call_gpt5 c w (page_prompt cfg pg idx) = (w1, Inr out)"
  shows "page_note c cfg w pg idx =
          (emit (w1\<lparr>files := (files w1)(md_path cfg idx \<mapsto> format_annotation_headers (replace_nbsp out))\<rparr>)
             [WriteText (md_path cfg idx) (format_annotation_headers (replace_nbsp out))],
           Inr (format_annotation_headers (replace_nbsp out)))"
  using assms by (auto simp: page_note_def Let_def)

lemma page_note_error:
  assumes "force cfg \<or> files w (md_path cfg idx) = None"
    and "call_gpt5 c w (page_prompt cfg pg idx) = (w1, Inl e)"
  shows "page_note c cfg w pg idx = (w1, Inl e)"
  using assms by (auto simp: page_note_def Let_def)

lemma annotate_page_hit:
  assumes "\<not> force cfg" "files w (md_path cfg idx) = Some t"
  shows "annotate_page c cfg w pg idx =
          place_note c cfg (begin_page cfg w pg idx) (read_text t)
            (notes_rect (page_layout (page_width pg) (page_height pg) (side cfg) (margin_ratio cfg))) idx"
proof -
  from assms(2) have "files (begin_page cfg w pg idx) (md_path cfg idx) = Some t"
    by (simp add: begin_page_keeps)
  with assms(1) have "page_note c cfg (begin_page cfg w pg idx) pg idx
        = (begin_page cfg w pg idx, Inr (read_text t))"
    by (rule page_note_hit)
  then show ?thesis by (simp add: annotate_page_def Let_def)
qed

lemma annotate_page_miss:
  assumes "force cfg \<or> files w (md_path cfg idx) = None"
    and "call_gpt5 c (begin_page cfg w pg idx) (page_prompt cfg pg idx) = (w1, Inr out)"
  shows "annotate_page c cfg w pg idx =
          place_note c cfg
            (emit (w1\<lparr>files := (files w1)(md_path cfg idx \<mapsto> format_annotation_headers (replace_nbsp out))\<rparr>)
               [WriteText (md_path cfg idx) (format_annotation_headers (replace_nbsp out))])
            (format_annotation_headers (replace_nbsp out))
            (notes_rect (page_layout (page_width pg) (page_height pg) (side cfg) (margin_ratio cfg))) idx"
proof -
  from assms(1) have "force cfg \<or> files (begin_page cfg w pg idx) (md_path cfg idx) = None"
    by (simp add: begin_page_keeps)
  from page_note_miss[OF this assms(2)] show ?thesis
    by (simp add: annotate_page_def Let_def)
qed

lemma annotate_page_error:
  assumes "force cfg \<or> files w (md_path cfg idx) = None"
    and "call_gpt5 c (begin_page cfg w pg idx) (page_prompt cfg pg idx) = (w1, Inl e)"
  shows "annotate_page c cfg w pg idx = (w1, Inl e)"
proof -
  from assms(1) have "force cfg \<or> files (begin_page cfg w pg idx) (md_path cfg idx) = None"
    by (simp add: begin_page_keeps)
  from page_note_error[OF this assms(2)] show ?thesis
    by (simp add: annotate_page_def Let_def)
qed

text \<open>
  Claim C2, as the code has it. With a record in the cache and \<open>force\<close> off, the
  annotation text of the page is the record as \<open>read_text\<close> decodes it (the record itself
  where it holds no carriage return); the generator is not called (the count of requests
  stays), the record stays, and the renderer is run on that text. With no record, or
  with \<open>force\<close> on, and a generator that returns a text within its attempts: the
  generator is called, the normalised text is written over the record, and only then the
  renderer is run, on that text.
\<close>

theorem cache_step:
  "(\<not> force cfg \<and> files w (md_path cfg idx) = Some t \<longrightarrow>
      page_note c cfg w pg idx = (w, Inr (read_text t))
      \<and> (CHR 0x0D \<notin> set t \<longrightarrow> read_text t = t)
      \<and> calls (fst (annotate_page c cfg w pg idx)) = calls w
      \<and> files (fst (annotate_page c cfg w pg idx)) (md_path cfg idx) = Some t
      \<and> (\<exists>evs. trace (fst (annotate_page c cfg w pg idx))
            = trace (begin_page cfg w pg idx)
              @ RunNode (node_script cfg)
                  (render_env (os_environ c)
                     (notes_rect (page_layout (page_width pg) (page_height pg) (side cfg) (margin_ratio cfg))))
                  (read_text t) # evs))
   \<and> ((force cfg \<or> files w (md_path cfg idx) = None)
       \<and> call_gpt5 c (begin_page cfg w pg idx) (page_prompt cfg pg idx) = (w1, Inr out) \<longrightarrow>
      calls w < calls w1
      \<and> calls (fst (annotate_page c cfg w pg idx)) = calls w1
      \<and> files (fst (annotate_page c cfg w pg idx)) (md_path cfg idx)
          = Some (format_annotation_headers (replace_nbsp out))
      \<and> (\<exists>evs. trace (fst (annotate_page c cfg w pg idx))
            = trace w1
              @ WriteText (md_path cfg idx) (format_annotation_headers (replace_nbsp out))
              # RunNode (node_script cfg)
                  (render_env (os_environ c)
                     (notes_rect (page_layout (page_width pg) (page_height pg) (side cfg) (margin_ratio cfg))))
                  (format_annotation_headers (replace_nbsp out)) # evs))"
proof (intro conjI impI)
  assume h: "\<not> force cfg \<and> files w (md_path cfg idx) = Some t"
  then have f: "\<not> force cfg" and s: "files w (md_path cfg idx) = Some t" by auto
  let ?r = "notes_rect (page_layout (page_width pg) (page_height pg) (side cfg) (margin_ratio cfg))"
  have a: "annotate_page c cfg w pg idx = place_note c cfg (begin_page cfg w pg idx) (read_text t) ?r idx"
    using f s by (rule annotate_page_hit)
  show "page_note c cfg w pg idx = (w, Inr (read_text t))"
    using f s by (rule page_note_hit)
  show "calls (fst (annotate_page c cfg w pg idx)) = calls w"
    unfolding a by (simp add: place_note_keeps begin_page_keeps)
  show "files (fst (annotate_page c cfg w pg idx)) (md_path cfg idx) = Some t"
    unfolding a using s by (simp add: place_note_keeps begin_page_keeps)
  show "\<exists>evs. trace (fst (annotate_page c cfg w pg idx))
            = trace (begin_page cfg w pg idx)
              @ RunNode (node_script cfg) (render_env (os_environ c) ?r) (read_text t) # evs"
    unfolding a by (rule place_note_trace)
next
  assume "CHR 0x0D \<notin> set t"
  then show "read_text t = t" by (rule read_text_plain)
next
  assume h: "(force cfg \<or> files w (md_path cfg idx) = None)
       \<and> call_gpt5 c (begin_page cfg w pg idx) (page_prompt cfg pg idx) = (w1, Inr out)"
  then have m: "force cfg \<or> files w (md_path cfg idx) = None"
    and g: "call_gpt5 c (begin_page cfg w pg idx) (page_prompt cfg pg idx) = (w1, Inr out)"
    by auto
  let ?r = "notes_rect (page_layout (page_width pg) (page_height pg) (side cfg) (margin_ratio cfg))"
  let ?note = "format_annotation_headers (replace_nbsp out)"
  let ?w2 = "emit (w1\<lparr>files := (files w1)(md_path cfg idx \<mapsto> ?note)\<rparr>) [WriteText (md_path cfg idx) ?note]"
  have a: "annotate_page c cfg w pg idx = place_note c cfg ?w2 ?note ?r idx"
    using m g by (rule annotate_page_miss)
  from g have "calls (begin_page cfg w pg idx) < calls w1" by (rule call_gpt5_calls)
  then show "calls w < calls w1" by (simp add: begin_page_keeps)
  show "calls (fst (annotate_page c cfg w pg idx)) = calls w1"
    unfolding a by (simp add: place_note_keeps emit_def)
  show "files (fst (annotate_page c cfg w pg idx)) (md_path cfg idx) = Some ?note"
    unfolding a by (simp add: place_note_keeps emit_def)
  from place_note_trace[of c cfg ?w2 ?note ?r idx]
  show "\<exists>evs. trace (fst (annotate_page c cfg w pg idx))
            = trace w1 @ WriteText (md_path cfg idx) ?note
              # RunNode (node_script cfg) (render_env (os_environ c) ?r) ?note # evs"
    unfolding a by (simp add: emit_def)
qed

text \<open>
  The theorem on the example: page 1 with the record \<open>"cached"\<close> in the cache, and page 1
  with an empty cache and a service that answers at once.
\<close>

theorem cache_step_witness:
  "page_note (example_collaborators 0) example_config
       (example_world [md_path example_config 1 \<mapsto> ''cached'']) example_page 1
     = (example_world [md_path example_config 1 \<mapsto> ''cached''], Inr ''cached'')
   \<and> calls (fst (annotate_page (example_collaborators 0) example_config
       (example_world [md_path example_config 1 \<mapsto> ''cached'']) example_page 1)) = 0
   \<and> calls (fst (annotate_page (example_collaborators 0) example_config
       (example_world Map.empty) example_page 1)) = 1
   \<and> files (fst (annotate_page (example_collaborators 0) example_config
       (example_world Map.empty) example_page 1)) (md_path example_config 1)
     = Some (''**Explanation:**'' @ [newline] @ '' ok'')"
proof -
  let ?c = "example_collaborators 0"
  let ?w = "example_world [md_path example_config 1 \<mapsto> ''cached'']"
  let ?e = "example_world Map.empty"
  let ?b = "begin_page example_config ?e example_page 1"
  let ?p = "page_prompt example_config example_page 1"
  let ?w1 = "emit (?b\<lparr>calls := calls ?b + 1\<rparr>) [Request (calls ?b) ?p]"
  have nf: "\<not> force example_config" by (simp add: example_config_def)
  have st: "files ?w (md_path example_config 1) = Some ''cached''"
    by (simp add: example_world_def)
  have rt: "read_text ''cached'' = ''cached''" by simp
  have mi: "force example_config \<or> files ?e (md_path example_config 1) = None"
    by (simp add: example_world_def)
  have sv: "service ?c (calls ?b) ?p = Returns (Some ''Explanation: ok'')"
    by (simp add: example_collaborators_def)
  have sp: "py_strip ''Explanation: ok'' = ''Explanation: ok''" by code_simp
  have g: "call_gpt5 ?c ?b ?p = (?w1, Inr ''Explanation: ok'')"
    unfolding call_gpt5_def using sv sp
    by (subst call_gpt5_from.simps) (simp add: Let_def)
  have fm: "format_annotation_headers (replace_nbsp ''Explanation: ok'')
        = ''**Explanation:**'' @ [newline] @ '' ok''" by code_simp
  have c1: "calls ?w1 = 1"
    by (simp add: emit_def begin_page_keeps example_world_def)
  have c0: "calls ?w = 0" by (simp add: example_world_def)
  from cache_step[of example_config ?w 1 "''cached''" ?c example_page] nf st
  have "page_note ?c example_config ?w example_page 1 = (?w, Inr (read_text ''cached''))"
    and "calls (fst (annotate_page ?c example_config ?w example_page 1)) = calls ?w"
    by blast+
  moreover
  from cache_step[of example_config ?e 1 _ ?c example_page ?w1 "''Explanation: ok''"] mi g
  have "calls (fst (annotate_page ?c example_config ?e example_page 1)) = calls ?w1"
    and "files (fst (annotate_page ?c example_config ?e example_page 1)) (md_path example_config 1)
          = Some (format_annotation_headers (replace_nbsp ''Explanation: ok''))"
    by blast+
  ultimately show ?thesis unfolding rt fm c1 c0 by blast
qed

text \<open>
  Claim C2 as stated fails where the record holds a carriage return: the record
  \<open>"a\r\nb"\<close> (a generator answer with such a line ending is stored as it is) is
  returned as \<open>"a\nb"\<close>, which is not the stored text.
\<close>

theorem cache_step_counterexample:
  "files (example_world [md_path example_config 1 \<mapsto> [CHR ''a'', CHR 0x0D, newline, CHR ''b'']])
       (md_path example_config 1)
     = Some [CHR ''a'', CHR 0x0D, newline, CHR ''b'']
   \<and> page_note (example_collaborators 0) example_config
       (example_world [md_path example_config 1 \<mapsto> [CHR ''a'', CHR 0x0D, newline, CHR ''b'']])
       example_page 1
     = (example_world [md_path example_config 1 \<mapsto> [CHR ''a'', CHR 0x0D, newline, CHR ''b'']],
        Inr [CHR ''a'', newline, CHR ''b''])
   \<and> [CHR ''a'', newline, CHR ''b''] \<noteq> [CHR ''a'', CHR 0x0D, newline, CHR ''b'']"
  by (simp add: page_note_def example_world_def example_config_def)

lemma retry_again:
  assumes "service c (calls w) p = Fails" "attempt < 5"
  shows "call_gpt5_from c attempt w p =
          call_gpt5_from c (Suc attempt)
            (w\<lparr>calls := calls w + 1,
               trace := trace w @ [Request (calls w) p,
                 Sleep (wait_exponential_jitter 1 20 attempt (jitter c (calls w)))]\<rparr>) p"
  using assms by (subst call_gpt5_from.simps) (simp add: Let_def emit_def)

lemma retry_stop:
  assumes "service c (calls w) p = Fails" "5 \<le> attempt"
  shows "call_gpt5_from c attempt w p =
          (w\<lparr>calls := calls w + 1, trace := trace w @ [Request (calls w) p]\<rparr>, Inl RetryError)"
  using assms by (subst call_gpt5_from.simps) (simp add: Let_def emit_def)

lemma retry_return:
  assumes "service c (calls w) p = Returns t"
  shows "call_gpt5_from c attempt w p =
          (w\<lparr>calls := calls w + 1, trace := trace w @ [Request (calls w) p]\<rparr>,
           Inr (py_strip (case t of None \<Rightarrow> [] | Some s \<Rightarrow> s)))"
  using assms by (subst call_gpt5_from.simps) (simp add: Let_def emit_def)

lemma retry_prefix:
  assumes "\<forall>i<k. service c (calls w + i) p = Fails" "a + k \<le> 5"
  shows "call_gpt5_from c a w p =
          call_gpt5_from c (a + k)
            (w\<lparr>calls := calls w + k, trace := trace w @ failed_attempts c p (calls w) a k\<rparr>) p"
  using assms
proof (induction k arbitrary: a w)
  case 0
  then show ?case by simp
next
  case (Suc k)
  let ?w1 = "w\<lparr>calls := calls w + 1,
      trace := trace w @ [Request (calls w) p,
        Sleep (wait_exponential_jitter 1 20 a (jitter c (calls w)))]\<rparr>"
  from Suc.prems(1) have f0: "service c (calls w) p = Fails" by force
  from Suc.prems(2) have a5: "a < 5" by simp
  have rest: "\<forall>i<k. service c (calls ?w1 + i) p = Fails"
  proof (intro allI impI)
    fix i assume "i < k"
    then have "Suc i < Suc k" by simp
    with Suc.prems(1) have "service c (calls w + Suc i) p = Fails" by blast
    then show "service c (calls ?w1 + i) p = Fails" by simp
  qed
  from Suc.prems(2) have le: "Suc a + k \<le> 5" by simp
  have "call_gpt5_from c a w p = call_gpt5_from c (Suc a) ?w1 p"
    using f0 a5 by (rule retry_again)
  also have "\<dots> = call_gpt5_from c (Suc a + k)
      (?w1\<lparr>calls := calls ?w1 + k,
            trace := trace ?w1 @ failed_attempts c p (calls ?w1) (Suc a) k\<rparr>) p"
    using rest le by (rule Suc.IH)
  finally show ?case by simp
qed

lemma answered_after:
  assumes "\<forall>i<k. service c (calls w + i) p = Fails" "k < 5"
    and "service c (calls w + k) p = Returns t"
  shows "call_gpt5 c w p =
          (w\<lparr>calls := calls w + k + 1,
             trace := trace w @ failed_attempts c p (calls w) 1 k @ [Request (calls w + k) p]\<rparr>,
           Inr (py_strip (case t of None \<Rightarrow> [] | Some s \<Rightarrow> s)))"
proof -
  let ?w = "w\<lparr>calls := calls w + k, trace := trace w @ failed_attempts c p (calls w) 1 k\<rparr>"
  from assms(2) have "1 + k \<le> 5" by simp
  with assms(1) have "call_gpt5 c w p = call_gpt5_from c (1 + k) ?w p"
    unfolding call_gpt5_def by (rule retry_prefix)
  moreover from assms(3) have "service c (calls ?w) p = Returns t" by simp
  ultimately show ?thesis by (simp add: retry_return Let_def emit_def)
qed

lemma interrupted_after:
  assumes "\<forall>i<k. service c (calls w + i) p = Fails" "k < 5"
    and "service c (calls w + k) p = Interrupted"
  shows "call_gpt5 c w p =
          (w\<lparr>calls := calls w + k + 1,
             trace := trace w @ failed_attempts c p (calls w) 1 k @ [Request (calls w + k) p]\<rparr>,
           Inl KeyboardInterrupt)"
proof -
  let ?w = "w\<lparr>calls := calls w + k, trace := trace w @ failed_attempts c p (calls w) 1 k\<rparr>"
  from assms(2) have "1 + k \<le> 5" by simp
  with assms(1) have "call_gpt5 c w p = call_gpt5_from c (1 + k) ?w p"
    unfolding call_gpt5_def by (rule retry_prefix)
  moreover from assms(3) have "service c (calls ?w) p = Interrupted" by simp
  then have "call_gpt5_from c (1 + k) ?w p =
      (?w\<lparr>calls := calls ?w + 1, trace := trace ?w @ [Request (calls ?w) p]\<rparr>,
       Inl KeyboardInterrupt)"
    by (subst call_gpt5_from.simps) (simp add: Let_def emit_def)
  ultimately show ?thesis by simp
qed

lemma five_failures:
  assumes "\<forall>i<5. service c (calls w + i) p = Fails"
  shows "call_gpt5 c w p =
          (w\<lparr>calls := calls w + 5,
             trace := trace w @ failed_attempts c p (calls w) 1 4 @ [Request (calls w + 4) p]\<rparr>,
           Inl RetryError)"
proof -
  let ?w = "w\<lparr>calls := calls w + 4, trace := trace w @ failed_attempts c p (calls w) 1 4\<rparr>"
  from assms have "\<forall>i<4. service c (calls w + i) p = Fails" by simp
  moreover have "(1::nat) + 4 \<le> 5" by simp
  ultimately have "call_gpt5 c w p = call_gpt5_from c (1 + 4) ?w p"
    unfolding call_gpt5_def by (rule retry_prefix)
  moreover from assms have "service c (calls ?w) p = Fails" by simp
  then have "call_gpt5_from c (1 + 4) ?w p =
      (?w\<lparr>calls := calls ?w + 1, trace := trace ?w @ [Request (calls ?w) p]\<rparr>, Inl RetryError)"
    by (rule retry_stop) simp
  ultimately show ?thesis by simp
qed

lemma attempts_bounded: "calls (fst (call_gpt5_from c a w p)) \<le> calls w + 1 + (5 - a)"
proof (induction c a w p rule: call_gpt5_from.induct)
  case (1 c a w p)
  show ?case
  proof (cases "service c (calls w) p")
    case Fails
    show ?thesis
    proof (cases "5 \<le> a")
      case True
      with Fails show ?thesis by (simp add: retry_stop Let_def emit_def)
    next
      case False
      let ?w1 = "emit (w\<lparr>calls := calls w + 1\<rparr>) [Request (calls w) p]"
      let ?w2 = "emit ?w1 [Sleep (wait_exponential_jitter 1 20 a (jitter c (calls w)))]"
      from "1.IH"[OF refl refl Fails False]
      have "calls (fst (call_gpt5_from c (a + 1) ?w2 p)) \<le> calls ?w2 + 1 + (5 - (a + 1))" .
      moreover have "calls ?w2 = calls w + 1" by (simp add: emit_def)
      moreover have "call_gpt5_from c a w p = call_gpt5_from c (a + 1) ?w2 p"
        using Fails False by (subst call_gpt5_from.simps) (simp add: Let_def)
      ultimately show ?thesis using False by simp
    qed
  next
    case Interrupted
    then show ?thesis
      by (subst call_gpt5_from.simps) (simp add: Let_def emit_def)
  next
    case (Returns t)
    then show ?thesis by (simp add: retry_return Let_def emit_def)
  qed
qed

lemma wait_values:
  assumes "0 \<le> j" "j \<le> 1"
  shows "wait_exponential_jitter 1 20 1 j = 1 + j \<and> wait_exponential_jitter 1 20 2 j = 2 + j
       \<and> wait_exponential_jitter 1 20 3 j = 4 + j \<and> wait_exponential_jitter 1 20 4 j = 8 + j"
  using assms by (simp add: wait_exponential_jitter_def eval_nat_numeral)

lemma wait_capped: "wait_exponential_jitter 1 20 k j \<le> 20"
  by (simp add: wait_exponential_jitter_def)

lemma run_pages_append:
  "run_pages c cfg src w (xs @ ys) =
     (case run_pages c cfg src w xs of
        (w1, Inl e) \<Rightarrow> (w1, Inl e)
      | (w1, Inr u) \<Rightarrow> run_pages c cfg src w1 ys)"
  by (induction xs arbitrary: w) (auto split: sum.splits prod.splits)

lemma run_pages_abort:
  assumes "run_pages c cfg src w0 pre = (w, Inr ())" "get_page src (idx - 1) = Inr pg"
    "annotate_page c cfg w pg idx = (w1, Inl e)"
  shows "run_pages c cfg src w0 (pre @ idx # rest) = (w1, Inl e)"
  using assms by (simp add: run_pages_append)

lemma annotate_pdf_abort:
  assumes "has_node c" "run_pages c cfg src (w0\<lparr>dst_pages := 0\<rparr>) ps = (w1, Inl e)"
  shows "annotate_pdf c cfg src (Some ps) w0 = (w1, Inl e)"
  using assms by (simp add: annotate_pdf_def)

text \<open>
  Claim C4. The call is tried again after every exception, up to five attempts in all.
  When the first \<open>k < 5\<close> attempts raise an exception and the next one returns, the call
  gives the returned text, stripped, with no error, after \<open>k + 1\<close> requests and a wait
  after each failure; four failures and an answer at the fifth attempt are the case
  \<open>k = 4\<close>. What is not an \<open>Exception\<close> ends the call at once. When all five attempts
  raise, the call ends in an error (tenacity's \<open>RetryError\<close>) after exactly five requests
  and four waits. No call sends more than five requests. For a jitter between 0 and 1
  second the waits are 1, 2, 4 and 8 seconds plus the jitter, and no wait exceeds 20
  seconds. An error of the call on a page whose text must be generated ends the run with
  that error in the world the last request left: no text is written, the renderer is not
  run, no page after it is touched, and nothing is saved.
\<close>

theorem retry_bounded:
  "((\<forall>i<k. service c (calls w + i) p = Fails) \<and> k < 5 \<longrightarrow>
      (service c (calls w + k) p = Returns t \<longrightarrow>
         call_gpt5 c w p =
          (w\<lparr>calls := calls w + k + 1,
             trace := trace w @ failed_attempts c p (calls w) 1 k @ [Request (calls w + k) p]\<rparr>,
           Inr (py_strip (case t of None \<Rightarrow> [] | Some s \<Rightarrow> s))))
      \<and> (service c (calls w + k) p = Interrupted \<longrightarrow>
         call_gpt5 c w p =
          (w\<lparr>calls := calls w + k + 1,
             trace := trace w @ failed_attempts c p (calls w) 1 k @ [Request (calls w + k) p]\<rparr>,
           Inl KeyboardInterrupt)))
   \<and> ((\<forall>i<5. service c (calls w + i) p = Fails) \<longrightarrow>
         call_gpt5 c w p =
          (w\<lparr>calls := calls w + 5,
             trace := trace w @ failed_attempts c p (calls w) 1 4 @ [Request (calls w + 4) p]\<rparr>,
           Inl RetryError))
   \<and> calls (fst (call_gpt5 c w p)) \<le> calls w + 5
   \<and> (0 \<le> j \<and> j \<le> 1 \<longrightarrow>
        wait_exponential_jitter 1 20 1 j = 1 + j \<and> wait_exponential_jitter 1 20 2 j = 2 + j
        \<and> wait_exponential_jitter 1 20 3 j = 4 + j \<and> wait_exponential_jitter 1 20 4 j = 8 + j)
   \<and> wait_exponential_jitter 1 20 n j \<le> 20
   \<and> (run_pages c cfg src w0 pre = (w, Inr ()) \<and> get_page src (idx - 1) = Inr pg
       \<and> (force cfg \<or> files w (md_path cfg idx) = None)
       \<and> call_gpt5 c (begin_page cfg w pg idx) (page_prompt cfg pg idx) = (w1, Inl e) \<longrightarrow>
        run_pages c cfg src w0 (pre @ idx # rest) = (w1, Inl e))
   \<and> (has_node c \<and> run_pages c cfg src (w0\<lparr>dst_pages := 0\<rparr>) ps = (w1, Inl e) \<longrightarrow>
        annotate_pdf c cfg src (Some ps) w0 = (w1, Inl e))"
proof -
  have a: "(\<forall>i<k. service c (calls w + i) p = Fails) \<and> k < 5 \<longrightarrow>
      (service c (calls w + k) p = Returns t \<longrightarrow>
         call_gpt5 c w p =
          (w\<lparr>calls := calls w + k + 1,
             trace := trace w @ failed_attempts c p (calls w) 1 k @ [Request (calls w + k) p]\<rparr>,
           Inr (py_strip (case t of None \<Rightarrow> [] | Some s \<Rightarrow> s))))
      \<and> (service c (calls w + k) p = Interrupted \<longrightarrow>
         call_gpt5 c w p =
          (w\<lparr>calls := calls w + k + 1,
             trace := trace w @ failed_attempts c p (calls w) 1 k @ [Request (calls w + k) p]\<rparr>,
           Inl KeyboardInterrupt))"
    using answered_after[of k c w p t] interrupted_after[of k c w p] by blast
  have b: "(\<forall>i<5. service c (calls w + i) p = Fails) \<longrightarrow>
         call_gpt5 c w p =
          (w\<lparr>calls := calls w + 5,
             trace := trace w @ failed_attempts c p (calls w) 1 4 @ [Request (calls w + 4) p]\<rparr>,
           Inl RetryError)"
    using five_failures[of c w p] by blast
  have m: "calls (fst (call_gpt5 c w p)) \<le> calls w + 5"
    using attempts_bounded[of c 1 w p] by (simp add: call_gpt5_def)
  have v: "0 \<le> j \<and> j \<le> 1 \<longrightarrow>
        wait_exponential_jitter 1 20 1 j = 1 + j \<and> wait_exponential_jitter 1 20 2 j = 2 + j
        \<and> wait_exponential_jitter 1 20 3 j = 4 + j \<and> wait_exponential_jitter 1 20 4 j = 8 + j"
    using wait_values[of j] by blast
  have d: "run_pages c cfg src w0 pre = (w, Inr ()) \<and> get_page src (idx - 1) = Inr pg
       \<and> (force cfg \<or> files w (md_path cfg idx) = None)
       \<and> call_gpt5 c (begin_page cfg w pg idx) (page_prompt cfg pg idx) = (w1, Inl e) \<longrightarrow>
        run_pages c cfg src w0 (pre @ idx # rest) = (w1, Inl e)"
  proof (intro impI)
    assume h: "run_pages c cfg src w0 pre = (w, Inr ()) \<and> get_page src (idx - 1) = Inr pg
       \<and> (force cfg \<or> files w (md_path cfg idx) = None)
       \<and> call_gpt5 c (begin_page cfg w pg idx) (page_prompt cfg pg idx) = (w1, Inl e)"
    then have "annotate_page c cfg w pg idx = (w1, Inl e)"
      using annotate_page_error[of cfg w idx c pg w1 e] by blast
    with h show "run_pages c cfg src w0 (pre @ idx # rest) = (w1, Inl e)"
      using run_pages_abort[of c cfg src w0 pre w idx pg w1 e rest] by blast
  qed
  have s: "has_node c \<and> run_pages c cfg src (w0\<lparr>dst_pages := 0\<rparr>) ps = (w1, Inl e) \<longrightarrow>
        annotate_pdf c cfg src (Some ps) w0 = (w1, Inl e)"
    using annotate_pdf_abort[of c cfg src w0 ps w1 e] by blast
  from a b m v d s wait_capped[of n j] show ?thesis by (intro conjI)
qed

text \<open>
  The theorem on the example: a service that answers at the second attempt, one that
  answers at the fifth, and a run over pages 1 and 2 with a service that fails five
  times.
\<close>

theorem retry_bounded_witness:
  "snd (call_gpt5 (example_collaborators 1) (example_world Map.empty) ''prompt'')
     = Inr ''Explanation: ok''
   \<and> calls (fst (call_gpt5 (example_collaborators 1) (example_world Map.empty) ''prompt'')) = 2
   \<and> snd (call_gpt5 (example_collaborators 4) (example_world Map.empty) ''prompt'')
     = Inr ''Explanation: ok''
   \<and> calls (fst (call_gpt5 (example_collaborators 4) (example_world Map.empty) ''prompt'')) = 5
   \<and> snd (call_gpt5 (example_collaborators 5) (example_world Map.empty) ''prompt'') = Inl RetryError
   \<and> calls (fst (call_gpt5 (example_collaborators 5) (example_world Map.empty) ''prompt'')) = 5
   \<and> wait_exponential_jitter 1 20 4 (1 / 2) = 17 / 2
   \<and> snd (annotate_pdf (example_collaborators 5) example_config [example_page, example_page]
            (Some [1, 2]) (example_world Map.empty)) = Inl RetryError
   \<and> calls (fst (annotate_pdf (example_collaborators 5) example_config [example_page, example_page]
            (Some [1, 2]) (example_world Map.empty))) = 5"
proof -
  let ?e = "example_world Map.empty"
  let ?c1 = "example_collaborators 1"
  let ?c4 = "example_collaborators 4"
  let ?c5 = "example_collaborators 5"
  let ?src = "[example_page, example_page]"
  let ?b = "begin_page example_config ?e example_page 1"
  let ?p = "page_prompt example_config example_page 1"
  have c0: "calls ?e = 0" by (simp add: example_world_def)
  have sp: "py_strip ''Explanation: ok'' = ''Explanation: ok''" by code_simp
  have fl: "\<forall>i<k. service (example_collaborators k) (calls v + i) q = Fails"
    if "calls v = 0" for k q and v :: world
    using that by (simp add: example_collaborators_def)
  have rt: "service (example_collaborators k) (calls v + k) q = Returns (Some ''Explanation: ok'')"
    if "calls v = 0" for k q and v :: world
    using that by (simp add: example_collaborators_def)
  from retry_bounded[of 1 ?c1 ?e "''prompt''" "Some ''Explanation: ok''"]
    fl[OF c0, of 1 "''prompt''"] rt[OF c0, of 1 "''prompt''"]
  have ok1: "snd (call_gpt5 ?c1 ?e ''prompt'') = Inr ''Explanation: ok''"
    and ok1c: "calls (fst (call_gpt5 ?c1 ?e ''prompt'')) = 2"
    by (simp_all add: sp c0)
  from retry_bounded[of 4 ?c4 ?e "''prompt''" "Some ''Explanation: ok''"]
    fl[OF c0, of 4 "''prompt''"] rt[OF c0, of 4 "''prompt''"]
  have ok: "snd (call_gpt5 ?c4 ?e ''prompt'') = Inr ''Explanation: ok''"
    and ok5: "calls (fst (call_gpt5 ?c4 ?e ''prompt'')) = 5"
    by (simp_all add: sp c0)
  from retry_bounded[of _ ?c5 ?e "''prompt''"] fl[OF c0, of 5 "''prompt''"]
  have bad: "snd (call_gpt5 ?c5 ?e ''prompt'') = Inl RetryError"
    and bad5: "calls (fst (call_gpt5 ?c5 ?e ''prompt'')) = 5"
    by (simp_all add: c0)
  from retry_bounded[of _ _ _ _ _ "1 / 2"]
  have wt: "wait_exponential_jitter 1 20 4 (1 / 2) = 17 / 2" by simp
  let ?ez = "?e\<lparr>dst_pages := 0\<rparr>"
  let ?bz = "begin_page example_config ?ez example_page 1"
  have cb: "calls ?bz = 0" by (simp add: begin_page_keeps c0)
  let ?w1 = "fst (call_gpt5 ?c5 ?bz ?p)"
  from retry_bounded[of _ ?c5 ?bz ?p] fl[OF cb, of 5 ?p]
  have "snd (call_gpt5 ?c5 ?bz ?p) = Inl RetryError" and w15: "calls ?w1 = 5"
    by (simp_all add: cb)
  then have g: "call_gpt5 ?c5 ?bz ?p = (?w1, Inl RetryError)"
    by (simp add: prod_eq_iff)
  have pre: "run_pages ?c5 example_config ?src ?ez [] = (?ez, Inr ())" by simp
  have gp: "get_page ?src (1 - 1) = Inr example_page" by (simp add: get_page_def)
  have mi: "force example_config \<or> files ?ez (md_path example_config 1) = None"
    by (simp add: example_world_def)
  have hn: "has_node ?c5" by (simp add: example_collaborators_def)
  from retry_bounded[of _ ?c5 ?ez _ _ _ _ example_config ?src ?ez "[]" 1 example_page
      ?w1 RetryError "[2]"] pre gp mi g
  have r: "run_pages ?c5 example_config ?src ?ez ([] @ 1 # [2]) = (?w1, Inl RetryError)"
    by blast
  from retry_bounded[of _ ?c5 _ _ _ _ _ example_config ?src ?e _ _ _
      ?w1 RetryError _ "[1, 2]"] r hn
  have "annotate_pdf ?c5 example_config ?src (Some [1, 2]) ?e = (?w1, Inl RetryError)"
    by simp
  then have run: "snd (annotate_pdf ?c5 example_config ?src (Some [1, 2]) ?e) = Inl RetryError"
    and run5: "calls (fst (annotate_pdf ?c5 example_config ?src (Some [1, 2]) ?e)) = 5"
    using w15 by simp_all
  from ok1 ok1c ok ok5 bad bad5 wt run run5 show ?thesis by (intro conjI)
qed

section \<open>Properties of the composed page\<close>











end
